theory Spec2Isabelle
  imports Main
begin

section \<open>Pointers, deleters and the heap of control blocks\<close>

text \<open>
  The development embeds namespace \<open>sp\<close> of \<open>shared_ptr.h\<close>: \<open>Ptr\<close>, \<open>control_block\<close>,
  \<open>weak_ptr\<close>, \<open>shared_ptr\<close>, the pointer casts, \<open>unique_ptr\<close> and
  \<open>enable_shared_from_this\<close>. (The minimal \<open>shared_ptr\<close> and \<open>unique_ptr\<close> that the
  file declares outside the namespace are not part of it.)

  A raw pointer is an address, a natural number; address 0 is the null pointer, so the
  test \<open>if (p)\<close> of the source is \<open>p \<noteq> nullptr\<close>. The template parameters \<open>T\<close> and
  \<open>U\<close> only fix the static type of a pointer and are left out.
\<close>

type_synonym ptr = nat

abbreviation nullptr :: ptr where
  "nullptr \<equiv> 0"

text \<open>
  A deleter is a callable object. The model names it and records each call; what the call
  does to the managed object is outside the smart pointers (the deleter is taken not to
  operate on the smart pointers of the program itself).
\<close>

datatype deleter = default_delete | custom_deleter nat

text \<open>
  \<open>class Ptr\<close>: the tuple of the stored pointer and the deleter.
  \<open>Ptr(T* p)\<close> value-initialises the tuple (a default-constructed deleter) and stores
  \<open>p\<close>; \<open>Ptr(T* p, Del&& d)\<close> stores both.
\<close>

record Ptr =
  impl_ptr :: ptr
  impl_deleter :: deleter

definition Ptr_p :: "ptr \<Rightarrow> deleter \<Rightarrow> Ptr" where
  "Ptr_p p dflt = \<lparr>impl_ptr = p, impl_deleter = dflt\<rparr>"

definition Ptr_p_d :: "ptr \<Rightarrow> deleter \<Rightarrow> Ptr" where
  "Ptr_p_d p d = \<lparr>impl_ptr = p, impl_deleter = d\<rparr>"

text \<open>
  \<open>class control_block\<close>: the two counters, both initialised to 1, and the \<open>Ptr\<close>.
  The counters are \<open>std::atomic<long>\<close>; every unit of a counter is held by a live
  \<open>shared_ptr\<close> or \<open>weak_ptr\<close> object, so a counter cannot leave the range of
  \<open>long\<close> and is modelled as an unbounded integer.
\<close>

record control_block =
  use_count_field :: int
  weak_use_count_field :: int
  impl :: Ptr

definition control_block_p :: "ptr \<Rightarrow> control_block" where
  "control_block_p p =
     \<lparr>use_count_field = 1, weak_use_count_field = 1, impl = Ptr_p p default_delete\<rparr>"

definition control_block_p_d :: "ptr \<Rightarrow> deleter \<Rightarrow> control_block" where
  "control_block_p_d p d =
     \<lparr>use_count_field = 1, weak_use_count_field = 1, impl = Ptr_p_d p d\<rparr>"

text \<open>
  The observable effects: the call \<open>_deleter(_ptr)\<close> in \<open>dec_ref\<close> of the control block
  at an address, and \<open>delete this\<close> in \<open>dec_wref\<close>.
\<close>

datatype event = Deleter_call ptr deleter ptr | Block_freed ptr

text \<open>
  \<open>class enable_shared_from_this\<close> has the one member \<open>weak_this\<close>, a \<open>weak_ptr\<close>;
  \<open>weak_ptr\<close> and \<open>shared_ptr\<close> hold a stored pointer and a pointer to a control block.
\<close>

record weak_ptr =
  wp_ptr :: ptr
  wp_control_block :: ptr

record shared_ptr =
  sp_ptr :: ptr
  sp_control_block :: ptr

record enable_shared_from_this =
  weak_this :: weak_ptr

text \<open>
  The heap: the control blocks that are allocated now, by address; the number of control
  blocks allocated so far; the events so far, oldest first; and the
  \<open>enable_shared_from_this\<close> base subobject of each object whose type derives from it, by
  the object's address. \<open>new control_block\<close> returns a fresh, non-null address: one more
  than the number of blocks allocated so far, so that an address names one allocation for
  good. Allocation is taken to succeed.
\<close>

record heap =
  blocks :: "ptr \<rightharpoonup> control_block"
  allocated :: nat
  events :: "event list"
  objects :: "ptr \<rightharpoonup> enable_shared_from_this"

definition empty_heap :: heap where
  "empty_heap = \<lparr>blocks = Map.empty, allocated = 0, events = [], objects = Map.empty\<rparr>"

definition new_control_block :: "control_block \<Rightarrow> heap \<Rightarrow> ptr \<times> heap" where
  "new_control_block cb h =
     (let a = Suc (allocated h)
      in (a, h\<lparr>blocks := (blocks h)(a \<mapsto> cb), allocated := a\<rparr>))"

text \<open>
  The control block a pointer points to: none for the null pointer and for a pointer to a
  block that has been freed (or was never allocated).
\<close>

definition block_at :: "heap \<Rightarrow> ptr \<Rightarrow> control_block option" where
  "block_at h a = (if a = nullptr then None else blocks h a)"

text \<open>
  Errors are values. \<open>bad_weak_ptr\<close> is the exception of the source. Reading or writing
  through a null pointer, or through a pointer to a control block that has been freed, is
  undefined behaviour in C++; the model makes it the error \<open>undefined_behaviour\<close>. An
  exception that leaves a \<open>noexcept\<close> function calls \<open>std::terminate\<close>. An error carries
  the heap as it is when the error is raised.
\<close>

datatype error = bad_weak_ptr | undefined_behaviour | std_terminate

type_synonym 'a result = "(error \<times> heap) + 'a"

definition bind_result :: "'a result \<Rightarrow> ('a \<Rightarrow> 'b result) \<Rightarrow> 'b result" where
  "bind_result m f = (case m of Inl e \<Rightarrow> Inl e | Inr x \<Rightarrow> f x)"

section \<open>The control block\<close>

text \<open>
  Each member function takes the address \<open>this\<close> of the control block and the heap.
  \<open>inc_ref\<close> is \<open>++_use_count\<close>, \<open>inc_wref\<close> is \<open>++_weak_use_count\<close>.
\<close>

definition inc_ref :: "ptr \<Rightarrow> heap \<Rightarrow> heap result" where
  "inc_ref this h =
     (case block_at h this of
        None \<Rightarrow> Inl (undefined_behaviour, h)
      | Some cb \<Rightarrow>
          Inr (h\<lparr>blocks := (blocks h)(this \<mapsto> cb\<lparr>use_count_field := use_count_field cb + 1\<rparr>)\<rparr>))"

definition inc_wref :: "ptr \<Rightarrow> heap \<Rightarrow> heap result" where
  "inc_wref this h =
     (case block_at h this of
        None \<Rightarrow> Inl (undefined_behaviour, h)
      | Some cb \<Rightarrow>
          Inr (h\<lparr>blocks := (blocks h)
                 (this \<mapsto> cb\<lparr>weak_use_count_field := weak_use_count_field cb + 1\<rparr>)\<rparr>))"

text \<open>
  \<open>dec_wref\<close>: \<open>if (--_weak_use_count == 0) delete this;\<close>
\<close>

definition dec_wref :: "ptr \<Rightarrow> heap \<Rightarrow> heap result" where
  "dec_wref this h =
     (case block_at h this of
        None \<Rightarrow> Inl (undefined_behaviour, h)
      | Some cb \<Rightarrow>
          (let w = weak_use_count_field cb - 1
           in if w = 0
              then Inr (h\<lparr>blocks := (blocks h)(this := None),
                         events := events h @ [Block_freed this]\<rparr>)
              else Inr (h\<lparr>blocks := (blocks h)(this \<mapsto> cb\<lparr>weak_use_count_field := w\<rparr>)\<rparr>)))"

text \<open>
  \<open>dec_ref\<close>: reads the pointer and the deleter, decrements the strong counter and, when
  the result is 0, calls the deleter on a non-null pointer and then \<open>dec_wref()\<close>.
\<close>

definition dec_ref :: "ptr \<Rightarrow> heap \<Rightarrow> heap result" where
  "dec_ref this h =
     (case block_at h this of
        None \<Rightarrow> Inl (undefined_behaviour, h)
      | Some cb \<Rightarrow>
          (let p = impl_ptr (impl cb);
               d = impl_deleter (impl cb);
               u = use_count_field cb - 1;
               h1 = h\<lparr>blocks := (blocks h)(this \<mapsto> cb\<lparr>use_count_field := u\<rparr>)\<rparr>
           in if u = 0
              then dec_wref this
                     (if p \<noteq> nullptr
                      then h1\<lparr>events := events h1 @ [Deleter_call this d p]\<rparr>
                      else h1)
              else Inr h1))"

definition control_block_use_count :: "control_block \<Rightarrow> int" where
  "control_block_use_count cb = use_count_field cb"

definition control_block_unique :: "control_block \<Rightarrow> bool" where
  "control_block_unique cb = (use_count_field cb = 1)"

definition control_block_weak_use_count :: "control_block \<Rightarrow> int" where
  "control_block_weak_use_count cb =
     weak_use_count_field cb - (if use_count_field cb > 0 then 1 else 0)"

definition control_block_expired :: "control_block \<Rightarrow> bool" where
  "control_block_expired cb = (use_count_field cb = 0)"

text \<open>Reading a control block through a pointer to it.\<close>

definition deref :: "ptr \<Rightarrow> heap \<Rightarrow> control_block result" where
  "deref a h =
     (case block_at h a of None \<Rightarrow> Inl (undefined_behaviour, h) | Some cb \<Rightarrow> Inr cb)"

section \<open>weak\_ptr\<close>

definition weak_ptr_default :: weak_ptr where
  "weak_ptr_default = \<lparr>wp_ptr = nullptr, wp_control_block = nullptr\<rparr>"

text \<open>
  \<open>weak_ptr(shared_ptr<U> const& sp)\<close> and the two copy constructors: copy both fields and
  \<open>inc_wref()\<close> on a non-null control block.
\<close>

definition weak_ptr_from_shared :: "shared_ptr \<Rightarrow> heap \<Rightarrow> (weak_ptr \<times> heap) result" where
  "weak_ptr_from_shared sp h =
     (let this = \<lparr>wp_ptr = sp_ptr sp, wp_control_block = sp_control_block sp\<rparr>
      in if wp_control_block this \<noteq> nullptr
         then bind_result (inc_wref (wp_control_block this) h) (\<lambda>h'. Inr (this, h'))
         else Inr (this, h))"

definition weak_ptr_copy :: "weak_ptr \<Rightarrow> heap \<Rightarrow> (weak_ptr \<times> heap) result" where
  "weak_ptr_copy wp h =
     (let this = \<lparr>wp_ptr = wp_ptr wp, wp_control_block = wp_control_block wp\<rparr>
      in if wp_control_block this \<noteq> nullptr
         then bind_result (inc_wref (wp_control_block this) h) (\<lambda>h'. Inr (this, h'))
         else Inr (this, h))"

text \<open>\<open>~weak_ptr()\<close>: \<open>if (_control_block) _control_block->dec_wref();\<close>\<close>

definition weak_ptr_dtor :: "weak_ptr \<Rightarrow> heap \<Rightarrow> heap result" where
  "weak_ptr_dtor this h =
     (if wp_control_block this \<noteq> nullptr then dec_wref (wp_control_block this) h else Inr h)"

text \<open>\<open>swap\<close> exchanges both fields of the two objects.\<close>

definition weak_ptr_swap :: "weak_ptr \<Rightarrow> weak_ptr \<Rightarrow> weak_ptr \<times> weak_ptr" where
  "weak_ptr_swap this wp =
     (\<lparr>wp_ptr = wp_ptr wp, wp_control_block = wp_control_block wp\<rparr>,
      \<lparr>wp_ptr = wp_ptr this, wp_control_block = wp_control_block this\<rparr>)"

text \<open>
  \<open>use_count()\<close>: \<open>(_control_block) ? _control_block->use_count() : 0\<close>, and
  \<open>expired()\<close>: \<open>(_control_block) ? _control_block->expired() : false\<close>.
\<close>

definition weak_ptr_use_count :: "weak_ptr \<Rightarrow> heap \<Rightarrow> int result" where
  "weak_ptr_use_count this h =
     (if wp_control_block this \<noteq> nullptr
      then bind_result (deref (wp_control_block this) h) (\<lambda>cb. Inr (control_block_use_count cb))
      else Inr 0)"

definition weak_ptr_expired :: "weak_ptr \<Rightarrow> heap \<Rightarrow> bool result" where
  "weak_ptr_expired this h =
     (if wp_control_block this \<noteq> nullptr
      then bind_result (deref (wp_control_block this) h) (\<lambda>cb. Inr (control_block_expired cb))
      else Inr False)"

section \<open>shared\_ptr\<close>

text \<open>
  \<open>shared_ptr()\<close> and \<open>shared_ptr(std::nullptr_t)\<close>: no stored pointer, no control block.
\<close>

definition shared_ptr_default :: shared_ptr where
  "shared_ptr_default = \<lparr>sp_ptr = nullptr, sp_control_block = nullptr\<rparr>"

text \<open>
  \<open>shared_ptr(U* p)\<close>, \<open>shared_ptr(U* p, D d)\<close> and \<open>shared_ptr(std::nullptr_t p, D d)\<close>:
  store the pointer and allocate a control block for it. None of them reads or writes the
  object that \<open>p\<close> points to.
\<close>

definition shared_ptr_p :: "ptr \<Rightarrow> heap \<Rightarrow> shared_ptr \<times> heap" where
  "shared_ptr_p p h =
     (let (a, h') = new_control_block (control_block_p p) h
      in (\<lparr>sp_ptr = p, sp_control_block = a\<rparr>, h'))"

definition shared_ptr_p_d :: "ptr \<Rightarrow> deleter \<Rightarrow> heap \<Rightarrow> shared_ptr \<times> heap" where
  "shared_ptr_p_d p d h =
     (let (a, h') = new_control_block (control_block_p_d p d) h
      in (\<lparr>sp_ptr = p, sp_control_block = a\<rparr>, h'))"

definition shared_ptr_nullptr_d :: "deleter \<Rightarrow> heap \<Rightarrow> shared_ptr \<times> heap" where
  "shared_ptr_nullptr_d d h =
     (let (a, h') = new_control_block (control_block_p_d nullptr d) h
      in (\<lparr>sp_ptr = nullptr, sp_control_block = a\<rparr>, h'))"

text \<open>
  The aliasing constructor \<open>shared_ptr(const shared_ptr<U>& sp, T* p)\<close> and the copy
  constructors: \<open>inc_ref()\<close> on a non-null control block.
\<close>

definition shared_ptr_alias :: "shared_ptr \<Rightarrow> ptr \<Rightarrow> heap \<Rightarrow> (shared_ptr \<times> heap) result" where
  "shared_ptr_alias sp p h =
     (let this = \<lparr>sp_ptr = p, sp_control_block = sp_control_block sp\<rparr>
      in if sp_control_block this \<noteq> nullptr
         then bind_result (inc_ref (sp_control_block this) h) (\<lambda>h'. Inr (this, h'))
         else Inr (this, h))"

definition shared_ptr_copy :: "shared_ptr \<Rightarrow> heap \<Rightarrow> (shared_ptr \<times> heap) result" where
  "shared_ptr_copy sp h =
     (let this = \<lparr>sp_ptr = sp_ptr sp, sp_control_block = sp_control_block sp\<rparr>
      in if sp_control_block this \<noteq> nullptr
         then bind_result (inc_ref (sp_control_block this) h) (\<lambda>h'. Inr (this, h'))
         else Inr (this, h))"

text \<open>
  The move constructors: the new object takes both fields, the source is left empty. The
  result is the new object and the source as it is afterwards.
\<close>

definition shared_ptr_move :: "shared_ptr \<Rightarrow> shared_ptr \<times> shared_ptr" where
  "shared_ptr_move sp =
     (\<lparr>sp_ptr = sp_ptr sp, sp_control_block = sp_control_block sp\<rparr>,
      \<lparr>sp_ptr = nullptr, sp_control_block = nullptr\<rparr>)"

text \<open>
  \<open>shared_ptr(const weak_ptr<U>& wp)\<close>: copies both fields, then
  \<open>if (wp.expired()) throw bad_weak_ptr{}; else _control_block->inc_ref();\<close>
\<close>

definition shared_ptr_from_weak :: "weak_ptr \<Rightarrow> heap \<Rightarrow> (shared_ptr \<times> heap) result" where
  "shared_ptr_from_weak wp h =
     (let this = \<lparr>sp_ptr = wp_ptr wp, sp_control_block = wp_control_block wp\<rparr>
      in bind_result (weak_ptr_expired wp h)
           (\<lambda>e. if e then Inl (bad_weak_ptr, h)
                else bind_result (inc_ref (sp_control_block this) h) (\<lambda>h'. Inr (this, h'))))"

text \<open>\<open>~shared_ptr()\<close>: \<open>if (_control_block) _control_block->dec_ref();\<close>\<close>

definition shared_ptr_dtor :: "shared_ptr \<Rightarrow> heap \<Rightarrow> heap result" where
  "shared_ptr_dtor this h =
     (if sp_control_block this \<noteq> nullptr then dec_ref (sp_control_block this) h else Inr h)"

definition shared_ptr_swap :: "shared_ptr \<Rightarrow> shared_ptr \<Rightarrow> shared_ptr \<times> shared_ptr" where
  "shared_ptr_swap this sp =
     (\<lparr>sp_ptr = sp_ptr sp, sp_control_block = sp_control_block sp\<rparr>,
      \<lparr>sp_ptr = sp_ptr this, sp_control_block = sp_control_block this\<rparr>)"

definition shared_ptr_get :: "shared_ptr \<Rightarrow> ptr" where
  "shared_ptr_get this = sp_ptr this"

definition shared_ptr_use_count :: "shared_ptr \<Rightarrow> heap \<Rightarrow> int result" where
  "shared_ptr_use_count this h =
     (if sp_control_block this \<noteq> nullptr
      then bind_result (deref (sp_control_block this) h) (\<lambda>cb. Inr (control_block_use_count cb))
      else Inr 0)"

definition shared_ptr_unique :: "shared_ptr \<Rightarrow> heap \<Rightarrow> bool result" where
  "shared_ptr_unique this h =
     (if sp_control_block this \<noteq> nullptr
      then bind_result (deref (sp_control_block this) h) (\<lambda>cb. Inr (control_block_unique cb))
      else Inr False)"

definition shared_ptr_bool :: "shared_ptr \<Rightarrow> bool" where
  "shared_ptr_bool this = (if sp_ptr this \<noteq> nullptr then True else False)"

text \<open>
  \<open>owner_before\<close> compares the addresses of the control blocks with \<open>std::less\<close>.
\<close>

definition shared_ptr_owner_before :: "shared_ptr \<Rightarrow> shared_ptr \<Rightarrow> bool" where
  "shared_ptr_owner_before this sp = (sp_control_block this < sp_control_block sp)"

definition shared_ptr_owner_before_weak :: "shared_ptr \<Rightarrow> weak_ptr \<Rightarrow> bool" where
  "shared_ptr_owner_before_weak this wp = (sp_control_block this < wp_control_block wp)"

definition weak_ptr_owner_before :: "weak_ptr \<Rightarrow> weak_ptr \<Rightarrow> bool" where
  "weak_ptr_owner_before this wp = (wp_control_block this < wp_control_block wp)"

definition weak_ptr_owner_before_shared :: "weak_ptr \<Rightarrow> shared_ptr \<Rightarrow> bool" where
  "weak_ptr_owner_before_shared this sp = (wp_control_block this < sp_control_block sp)"

text \<open>
  \<open>weak_ptr::lock()\<close>: \<open>(expired()) ? shared_ptr<T>{} : shared_ptr<T>{ *this }\<close>. The
  function is \<open>noexcept\<close>.
\<close>

definition weak_ptr_lock :: "weak_ptr \<Rightarrow> heap \<Rightarrow> (shared_ptr \<times> heap) result" where
  "weak_ptr_lock this h =
     bind_result (weak_ptr_expired this h)
       (\<lambda>e. if e then Inr (shared_ptr_default, h)
            else (case shared_ptr_from_weak this h of
                    Inl (err, h') \<Rightarrow>
                      (if err = bad_weak_ptr then Inl (std_terminate, h') else Inl (err, h'))
                  | Inr r \<Rightarrow> Inr r))"

subsection \<open>Pointer casts\<close>

text \<open>
  Each cast builds its result with the aliasing constructor from \<open>sp\<close> and the converted
  \<open>sp.get()\<close>. The conversion of the raw pointer (\<open>static_cast\<close>, \<open>const_cast\<close>,
  \<open>dynamic_cast\<close>, \<open>reinterpret_cast\<close>) is a parameter; a failing \<open>dynamic_cast\<close> gives
  the null pointer, and \<open>dynamic_pointer_cast\<close> then returns an empty \<open>shared_ptr\<close>.
\<close>

definition static_pointer_cast ::
  "(ptr \<Rightarrow> ptr) \<Rightarrow> shared_ptr \<Rightarrow> heap \<Rightarrow> (shared_ptr \<times> heap) result" where
  "static_pointer_cast conv sp h = shared_ptr_alias sp (conv (shared_ptr_get sp)) h"

definition const_pointer_cast ::
  "(ptr \<Rightarrow> ptr) \<Rightarrow> shared_ptr \<Rightarrow> heap \<Rightarrow> (shared_ptr \<times> heap) result" where
  "const_pointer_cast conv sp h = shared_ptr_alias sp (conv (shared_ptr_get sp)) h"

definition dynamic_pointer_cast ::
  "(ptr \<Rightarrow> ptr) \<Rightarrow> shared_ptr \<Rightarrow> heap \<Rightarrow> (shared_ptr \<times> heap) result" where
  "dynamic_pointer_cast conv sp h =
     (let p = conv (shared_ptr_get sp)
      in if p \<noteq> nullptr then shared_ptr_alias sp p h else Inr (shared_ptr_default, h))"

definition reinterpret_pointer_cast ::
  "(ptr \<Rightarrow> ptr) \<Rightarrow> shared_ptr \<Rightarrow> heap \<Rightarrow> (shared_ptr \<times> heap) result" where
  "reinterpret_pointer_cast conv sp h = shared_ptr_alias sp (conv (shared_ptr_get sp)) h"

text \<open>The four casts, by name.\<close>

datatype pointer_cast_kind = Static | Const | Dynamic | Reinterpret

fun pointer_cast ::
  "pointer_cast_kind \<Rightarrow> (ptr \<Rightarrow> ptr) \<Rightarrow> shared_ptr \<Rightarrow> heap \<Rightarrow> (shared_ptr \<times> heap) result"
  where
  "pointer_cast Static conv sp h = static_pointer_cast conv sp h"
| "pointer_cast Const conv sp h = const_pointer_cast conv sp h"
| "pointer_cast Dynamic conv sp h = dynamic_pointer_cast conv sp h"
| "pointer_cast Reinterpret conv sp h = reinterpret_pointer_cast conv sp h"

text \<open>
  The round trip \<open>cast2<T>(cast1<U>(sp))\<close>: the inner cast gives a temporary, the outer
  cast gives the result, and the temporary is destroyed at the end of the full
  expression.
\<close>

definition cast_round_trip ::
  "pointer_cast_kind \<Rightarrow> (ptr \<Rightarrow> ptr) \<Rightarrow> pointer_cast_kind \<Rightarrow> (ptr \<Rightarrow> ptr) \<Rightarrow>
   shared_ptr \<Rightarrow> heap \<Rightarrow> (shared_ptr \<times> heap) result" where
  "cast_round_trip cast1 to_U cast2 to_T sp h =
     bind_result (pointer_cast cast1 to_U sp h)
       (\<lambda>(tmp, h1). bind_result (pointer_cast cast2 to_T tmp h1)
          (\<lambda>(r, h2). bind_result (shared_ptr_dtor tmp h2)
             (\<lambda>h3. Inr (r, h3))))"

text \<open>\<open>use_count()\<close> of the result of the round trip.\<close>

definition use_count_after_round_trip ::
  "pointer_cast_kind \<Rightarrow> (ptr \<Rightarrow> ptr) \<Rightarrow> pointer_cast_kind \<Rightarrow> (ptr \<Rightarrow> ptr) \<Rightarrow>
   shared_ptr \<Rightarrow> heap \<Rightarrow> int result" where
  "use_count_after_round_trip cast1 to_U cast2 to_T sp h =
     bind_result (cast_round_trip cast1 to_U cast2 to_T sp h)
       (\<lambda>(r, h'). shared_ptr_use_count r h')"

text \<open>
  A cast converts when it is not a \<open>dynamic_pointer_cast\<close> whose \<open>dynamic_cast\<close> gives the
  null pointer.
\<close>

definition converts :: "pointer_cast_kind \<Rightarrow> (ptr \<Rightarrow> ptr) \<Rightarrow> ptr \<Rightarrow> bool" where
  "converts c conv p = (if c = Dynamic then conv p \<noteq> nullptr else True)"

subsection \<open>Promotion while another thread runs\<close>

text \<open>
  The counters are \<open>std::atomic<long>\<close>: each read, increment and decrement of a counter
  is one indivisible step, and the steps of two threads interleave. The constructor
  \<open>shared_ptr(const weak_ptr<U>& wp)\<close> takes two such steps, the read of the strong
  counter in \<open>wp.expired()\<close> and the increment in \<open>inc_ref()\<close>. The following is that
  constructor, and \<open>lock()\<close> with it, when an operation \<open>other\<close> of another thread runs
  between the two steps. With an \<open>other\<close> that does nothing they are the constructor and
  \<open>lock()\<close> themselves.
\<close>

definition shared_ptr_from_weak_interleaved ::
  "weak_ptr \<Rightarrow> (heap \<Rightarrow> heap result) \<Rightarrow> heap \<Rightarrow> (shared_ptr \<times> heap) result" where
  "shared_ptr_from_weak_interleaved wp other h =
     (let this = \<lparr>sp_ptr = wp_ptr wp, sp_control_block = wp_control_block wp\<rparr>
      in bind_result (weak_ptr_expired wp h)
           (\<lambda>e. if e then Inl (bad_weak_ptr, h)
                else bind_result (other h)
                       (\<lambda>h1. bind_result (inc_ref (sp_control_block this) h1)
                               (\<lambda>h2. Inr (this, h2)))))"

definition weak_ptr_lock_interleaved ::
  "weak_ptr \<Rightarrow> (heap \<Rightarrow> heap result) \<Rightarrow> heap \<Rightarrow> (shared_ptr \<times> heap) result" where
  "weak_ptr_lock_interleaved this other h =
     bind_result (weak_ptr_expired this h)
       (\<lambda>e. if e then Inr (shared_ptr_default, h)
            else (case shared_ptr_from_weak_interleaved this other h of
                    Inl (err, h') \<Rightarrow>
                      (if err = bad_weak_ptr then Inl (std_terminate, h') else Inl (err, h'))
                  | Inr r \<Rightarrow> Inr r))"

section \<open>unique\_ptr and the transfer of ownership\<close>

record unique_ptr =
  up_impl :: Ptr

definition unique_ptr_p :: "ptr \<Rightarrow> unique_ptr" where
  "unique_ptr_p p = \<lparr>up_impl = Ptr_p p default_delete\<rparr>"

definition unique_ptr_p_d :: "ptr \<Rightarrow> deleter \<Rightarrow> unique_ptr" where
  "unique_ptr_p_d p d = \<lparr>up_impl = Ptr_p_d p d\<rparr>"

definition unique_ptr_get :: "unique_ptr \<Rightarrow> ptr" where
  "unique_ptr_get this = impl_ptr (up_impl this)"

definition unique_ptr_get_deleter :: "unique_ptr \<Rightarrow> deleter" where
  "unique_ptr_get_deleter this = impl_deleter (up_impl this)"

text \<open>
  \<open>release()\<close>: \<open>T* cp = _ptr; _ptr = nullptr; return cp;\<close> The result is the returned
  pointer and the \<open>unique_ptr\<close> as it is afterwards.
\<close>

definition unique_ptr_release :: "unique_ptr \<Rightarrow> ptr \<times> unique_ptr" where
  "unique_ptr_release this =
     (let cp = impl_ptr (up_impl this)
      in (cp, this\<lparr>up_impl := (up_impl this)\<lparr>impl_ptr := nullptr\<rparr>\<rparr>))"

text \<open>
  \<open>shared_ptr(unique_ptr<U, D>&& up) : shared_ptr{ up.release(), up.get_deleter() }\<close>: the
  elements of the braced list are evaluated left to right.
\<close>

definition shared_ptr_from_unique ::
  "unique_ptr \<Rightarrow> heap \<Rightarrow> shared_ptr \<times> unique_ptr \<times> heap" where
  "shared_ptr_from_unique up h =
     (let (p, up') = unique_ptr_release up;
          d = unique_ptr_get_deleter up';
          (this, h') = shared_ptr_p_d p d h
      in (this, up', h'))"

section \<open>enable\_shared\_from\_this\<close>

text \<open>
  The default constructor initialises \<open>weak_this{}\<close>; the copy constructor has an empty
  initialiser list and an empty body, so \<open>weak_this\<close> is default-constructed; the
  assignment operator returns \<open>*this\<close> unchanged. \<open>weak_this\<close> is private and the class
  has no friend, so nothing else writes it.
\<close>

definition enable_shared_from_this_default :: enable_shared_from_this where
  "enable_shared_from_this_default = \<lparr>weak_this = weak_ptr_default\<rparr>"

definition enable_shared_from_this_copy :: "enable_shared_from_this \<Rightarrow> enable_shared_from_this" where
  "enable_shared_from_this_copy r = \<lparr>weak_this = weak_ptr_default\<rparr>"

definition enable_shared_from_this_assign ::
  "enable_shared_from_this \<Rightarrow> enable_shared_from_this \<Rightarrow> enable_shared_from_this" where
  "enable_shared_from_this_assign this r = this"

text \<open>\<open>shared_from_this()\<close>: \<open>return shared_ptr<T>(weak_this);\<close>\<close>

definition shared_from_this :: "enable_shared_from_this \<Rightarrow> heap \<Rightarrow> (shared_ptr \<times> heap) result" where
  "shared_from_this this h = shared_ptr_from_weak (weak_this this) h"

text \<open>
  \<open>p->shared_from_this()\<close> for the object at address \<open>p\<close>; calling through a pointer to no
  object is undefined.
\<close>

definition shared_from_this_at :: "ptr \<Rightarrow> heap \<Rightarrow> (shared_ptr \<times> heap) result" where
  "shared_from_this_at p h =
     (case objects h p of
        None \<Rightarrow> Inl (undefined_behaviour, h)
      | Some obj \<Rightarrow> shared_from_this obj h)"

section \<open>Programs over shared\_ptr and weak\_ptr objects\<close>

text \<open>
  A program state: the \<open>shared_ptr\<close> objects and the \<open>weak_ptr\<close> objects the program has
  constructed, in the order of their construction, and the heap. An object whose
  destructor has run is \<open>None\<close>; using it again is undefined.
\<close>

record state =
  svars :: "shared_ptr option list"
  wvars :: "weak_ptr option list"
  hp :: heap

definition init_state :: state where
  "init_state = \<lparr>svars = [], wvars = [], hp = empty_heap\<rparr>"

definition sget :: "state \<Rightarrow> nat \<Rightarrow> shared_ptr result" where
  "sget s i =
     (if i < length (svars s)
      then (case svars s ! i of None \<Rightarrow> Inl (undefined_behaviour, hp s) | Some v \<Rightarrow> Inr v)
      else Inl (undefined_behaviour, hp s))"

definition wget :: "state \<Rightarrow> nat \<Rightarrow> weak_ptr result" where
  "wget s k =
     (if k < length (wvars s)
      then (case wvars s ! k of None \<Rightarrow> Inl (undefined_behaviour, hp s) | Some w \<Rightarrow> Inr w)
      else Inl (undefined_behaviour, hp s))"

text \<open>
  The operations of a program. A constructor adds a new object at the end of its list;
  the other operations name the objects they work on by position. The converting
  templates behave as the members they mirror.

  \<^item> \<open>S_default\<close>: \<open>shared_ptr()\<close>, \<open>shared_ptr(nullptr)\<close>;
    \<open>S_p p\<close>: \<open>shared_ptr(p)\<close>; \<open>S_p_d p d\<close>: \<open>shared_ptr(p, d)\<close>;
    \<open>S_nullptr_d d\<close>: \<open>shared_ptr(nullptr, d)\<close>;
  \<^item> \<open>S_alias j p\<close>: the aliasing constructor from object \<open>j\<close> (the pointer casts);
    \<open>S_copy j\<close>, \<open>S_move j\<close>: copy and move construction from object \<open>j\<close>;
    \<open>S_from_weak k\<close>: \<open>shared_ptr(wp)\<close> for the \<open>weak_ptr\<close> object \<open>k\<close>;
  \<^item> \<open>S_dtor i\<close>: the destructor of object \<open>i\<close>;
    \<open>S_assign i j\<close>, \<open>S_move_assign i j\<close>: object \<open>i\<close> is assigned (from) object \<open>j\<close>;
    \<open>S_swap i j\<close>; \<open>S_reset i\<close>, \<open>S_reset_p i p\<close>, \<open>S_reset_p_d i p d\<close>;
  \<^item> \<open>W_default\<close>, \<open>W_from_shared j\<close>, \<open>W_copy k\<close>, \<open>W_dtor k\<close>, \<open>W_assign k k'\<close>,
    \<open>W_assign_shared k j\<close>, \<open>W_swap k k'\<close>, \<open>W_reset k\<close> for \<open>weak_ptr\<close>;
    \<open>W_lock k\<close>: a new \<open>shared_ptr\<close> object initialised with \<open>lock()\<close> of object \<open>k\<close>.
\<close>

datatype operation =
    S_default | S_p ptr | S_p_d ptr deleter | S_nullptr_d deleter
  | S_alias nat ptr | S_copy nat | S_move nat | S_from_weak nat
  | S_dtor nat | S_assign nat nat | S_move_assign nat nat | S_swap nat nat
  | S_reset nat | S_reset_p nat ptr | S_reset_p_d nat ptr deleter
  | W_default | W_from_shared nat | W_copy nat | W_dtor nat
  | W_assign nat nat | W_assign_shared nat nat | W_swap nat nat | W_reset nat
  | W_lock nat

definition new_shared :: "state \<Rightarrow> shared_ptr \<Rightarrow> heap \<Rightarrow> state" where
  "new_shared s v h = s\<lparr>svars := svars s @ [Some v], hp := h\<rparr>"

definition new_weak :: "state \<Rightarrow> weak_ptr \<Rightarrow> heap \<Rightarrow> state" where
  "new_weak s w h = s\<lparr>wvars := wvars s @ [Some w], hp := h\<rparr>"

text \<open>
  One operation. The assignments and resets are the bodies of the source: a temporary is
  constructed, swapped with \<open>*this\<close> and destroyed. The objects are read from the state
  at the moment the source reads them, so an operation applied to one object twice
  (\<open>x = x\<close>, \<open>x = std::move(x)\<close>, \<open>x.swap(x)\<close>) is followed as the source runs it.
\<close>

fun step :: "operation \<Rightarrow> state \<Rightarrow> state result" where
  "step S_default s = Inr (new_shared s shared_ptr_default (hp s))"
| "step (S_p p) s = (let (v, h') = shared_ptr_p p (hp s) in Inr (new_shared s v h'))"
| "step (S_p_d p d) s = (let (v, h') = shared_ptr_p_d p d (hp s) in Inr (new_shared s v h'))"
| "step (S_nullptr_d d) s =
     (let (v, h') = shared_ptr_nullptr_d d (hp s) in Inr (new_shared s v h'))"
| "step (S_alias j p) s =
     bind_result (sget s j) (\<lambda>sp.
     bind_result (shared_ptr_alias sp p (hp s)) (\<lambda>(v, h'). Inr (new_shared s v h')))"
| "step (S_copy j) s =
     bind_result (sget s j) (\<lambda>sp.
     bind_result (shared_ptr_copy sp (hp s)) (\<lambda>(v, h'). Inr (new_shared s v h')))"
| "step (S_move j) s =
     bind_result (sget s j) (\<lambda>sp.
       let (v, sp') = shared_ptr_move sp
       in Inr (new_shared (s\<lparr>svars := (svars s)[j := Some sp']\<rparr>) v (hp s)))"
| "step (S_from_weak k) s =
     bind_result (wget s k) (\<lambda>wp.
     bind_result (shared_ptr_from_weak wp (hp s)) (\<lambda>(v, h'). Inr (new_shared s v h')))"
| "step (S_dtor i) s =
     bind_result (sget s i) (\<lambda>this.
     bind_result (shared_ptr_dtor this (hp s)) (\<lambda>h'.
       Inr (s\<lparr>svars := (svars s)[i := None], hp := h'\<rparr>)))"
| "step (S_assign i j) s =
     bind_result (sget s j) (\<lambda>sp.
     bind_result (shared_ptr_copy sp (hp s)) (\<lambda>(tmp, h1).
     bind_result (sget s i) (\<lambda>this.
       let (tmp', this') = shared_ptr_swap tmp this
       in bind_result (shared_ptr_dtor tmp' h1) (\<lambda>h2.
            Inr (s\<lparr>svars := (svars s)[i := Some this'], hp := h2\<rparr>)))))"
| "step (S_move_assign i j) s =
     bind_result (sget s j) (\<lambda>sp.
       let (tmp, sp') = shared_ptr_move sp;
           s1 = s\<lparr>svars := (svars s)[j := Some sp']\<rparr>
       in bind_result (sget s1 i) (\<lambda>this.
            let (tmp', this') = shared_ptr_swap tmp this
            in bind_result (shared_ptr_dtor tmp' (hp s1)) (\<lambda>h'.
                 Inr (s1\<lparr>svars := (svars s1)[i := Some this'], hp := h'\<rparr>))))"
| "step (S_swap i j) s =
     bind_result (sget s i) (\<lambda>this.
     bind_result (sget s j) (\<lambda>sp.
       let (this', sp') = shared_ptr_swap this sp
       in Inr (s\<lparr>svars := (svars s)[i := Some this', j := Some sp']\<rparr>)))"
| "step (S_reset i) s =
     bind_result (sget s i) (\<lambda>this.
       let (tmp', this') = shared_ptr_swap shared_ptr_default this
       in bind_result (shared_ptr_dtor tmp' (hp s)) (\<lambda>h'.
            Inr (s\<lparr>svars := (svars s)[i := Some this'], hp := h'\<rparr>)))"
| "step (S_reset_p i p) s =
     (let (tmp, h1) = shared_ptr_p p (hp s)
      in bind_result (sget s i) (\<lambda>this.
           let (tmp', this') = shared_ptr_swap tmp this
           in bind_result (shared_ptr_dtor tmp' h1) (\<lambda>h2.
                Inr (s\<lparr>svars := (svars s)[i := Some this'], hp := h2\<rparr>))))"
| "step (S_reset_p_d i p d) s =
     (let (tmp, h1) = shared_ptr_p_d p d (hp s)
      in bind_result (sget s i) (\<lambda>this.
           let (tmp', this') = shared_ptr_swap tmp this
           in bind_result (shared_ptr_dtor tmp' h1) (\<lambda>h2.
                Inr (s\<lparr>svars := (svars s)[i := Some this'], hp := h2\<rparr>))))"
| "step W_default s = Inr (new_weak s weak_ptr_default (hp s))"
| "step (W_from_shared j) s =
     bind_result (sget s j) (\<lambda>sp.
     bind_result (weak_ptr_from_shared sp (hp s)) (\<lambda>(w, h'). Inr (new_weak s w h')))"
| "step (W_copy k) s =
     bind_result (wget s k) (\<lambda>wp.
     bind_result (weak_ptr_copy wp (hp s)) (\<lambda>(w, h'). Inr (new_weak s w h')))"
| "step (W_dtor k) s =
     bind_result (wget s k) (\<lambda>this.
     bind_result (weak_ptr_dtor this (hp s)) (\<lambda>h'.
       Inr (s\<lparr>wvars := (wvars s)[k := None], hp := h'\<rparr>)))"
| "step (W_assign k k') s =
     bind_result (wget s k') (\<lambda>wp.
     bind_result (weak_ptr_copy wp (hp s)) (\<lambda>(tmp, h1).
     bind_result (wget s k) (\<lambda>this.
       let (tmp', this') = weak_ptr_swap tmp this
       in bind_result (weak_ptr_dtor tmp' h1) (\<lambda>h2.
            Inr (s\<lparr>wvars := (wvars s)[k := Some this'], hp := h2\<rparr>)))))"
| "step (W_assign_shared k j) s =
     bind_result (sget s j) (\<lambda>sp.
     bind_result (weak_ptr_from_shared sp (hp s)) (\<lambda>(tmp, h1).
     bind_result (wget s k) (\<lambda>this.
       let (tmp', this') = weak_ptr_swap tmp this
       in bind_result (weak_ptr_dtor tmp' h1) (\<lambda>h2.
            Inr (s\<lparr>wvars := (wvars s)[k := Some this'], hp := h2\<rparr>)))))"
| "step (W_swap k k') s =
     bind_result (wget s k) (\<lambda>this.
     bind_result (wget s k') (\<lambda>wp.
       let (this', wp') = weak_ptr_swap this wp
       in Inr (s\<lparr>wvars := (wvars s)[k := Some this', k' := Some wp']\<rparr>)))"
| "step (W_reset k) s =
     bind_result (wget s k) (\<lambda>this.
       let (tmp', this') = weak_ptr_swap weak_ptr_default this
       in bind_result (weak_ptr_dtor tmp' (hp s)) (\<lambda>h'.
            Inr (s\<lparr>wvars := (wvars s)[k := Some this'], hp := h'\<rparr>)))"
| "step (W_lock k) s =
     bind_result (wget s k) (\<lambda>this.
     bind_result (weak_ptr_lock this (hp s)) (\<lambda>(v, h'). Inr (new_shared s v h')))"

text \<open>
  A program is a list of operations. A \<open>bad_weak_ptr\<close> is caught by the program: no
  object has been constructed, and the program goes on with the heap as the exception
  left it. Undefined behaviour ends the run.
\<close>

fun run :: "operation list \<Rightarrow> state \<Rightarrow> state result" where
  "run [] s = Inr s"
| "run (x # xs) s =
     (case step x s of
        Inl (err, h) \<Rightarrow> if err = bad_weak_ptr then run xs (s\<lparr>hp := h\<rparr>) else Inl (err, h)
      | Inr s' \<Rightarrow> run xs s')"

text \<open>
  The live \<open>shared_ptr\<close> objects and the live \<open>weak_ptr\<close> objects that hold the control
  block at address \<open>a\<close>, counted.
\<close>

definition shares :: "ptr \<Rightarrow> shared_ptr option \<Rightarrow> bool" where
  "shares a v = (case v of None \<Rightarrow> False | Some sp \<Rightarrow> sp_control_block sp = a)"

definition observes :: "ptr \<Rightarrow> weak_ptr option \<Rightarrow> bool" where
  "observes a v = (case v of None \<Rightarrow> False | Some wp \<Rightarrow> wp_control_block wp = a)"

definition live_shared :: "ptr \<Rightarrow> state \<Rightarrow> int" where
  "live_shared a s = int (length (filter (shares a) (svars s)))"

definition live_weak :: "ptr \<Rightarrow> state \<Rightarrow> int" where
  "live_weak a s = int (length (filter (observes a) (wvars s)))"

text \<open>The events of the control block at address \<open>a\<close>, oldest first.\<close>

fun block_of :: "event \<Rightarrow> ptr" where
  "block_of (Deleter_call a d p) = a"
| "block_of (Block_freed a) = a"

definition events_of :: "ptr \<Rightarrow> heap \<Rightarrow> event list" where
  "events_of a h = filter (\<lambda>e. block_of e = a) (events h)"

text \<open>
  The calls of the deleter of the control block at address \<open>a\<close>, and the releases of
  that block, in the order they happened.
\<close>

definition deleter_calls :: "ptr \<Rightarrow> heap \<Rightarrow> event list" where
  "deleter_calls a h =
     filter (\<lambda>e. case e of Deleter_call b d p \<Rightarrow> b = a | Block_freed b \<Rightarrow> False) (events h)"

definition block_frees :: "ptr \<Rightarrow> heap \<Rightarrow> event list" where
  "block_frees a h = filter (\<lambda>e. e = Block_freed a) (events h)"

section \<open>The invariant of a control block\<close>

text \<open>
  What the destruction of the object of a control block at \<open>a\<close> with stored pointer and
  deleter \<open>i\<close> leaves in the events: one call of the deleter, or nothing for a null
  pointer.
\<close>

definition destroy_events :: "ptr \<Rightarrow> Ptr \<Rightarrow> event list" where
  "destroy_events a i =
     (if impl_ptr i \<noteq> nullptr then [Deleter_call a (impl_deleter i) (impl_ptr i)] else [])"

text \<open>
  \<open>tracked a i h ns nw\<close>: the heap \<open>h\<close> accounts for \<open>ns\<close> owners and \<open>nw\<close> observers of
  the address \<open>a\<close>, for a block with stored pointer and deleter \<open>i\<close>.
  \<^item> An address that has not been allocated yet has no block, no owner, no observer and no
    event.
  \<^item> A block that is allocated has \<open>i\<close>, the strong counter \<open>ns\<close> and the weak counter
    \<open>nw\<close>, plus one while \<open>ns\<close> is not 0 (the note at \<open>_weak_use_count\<close> in the source);
    its weak counter is positive; its object has been destroyed if and only if \<open>ns\<close> is 0.
  \<^item> A block that has been freed has no owner and no observer; its object was destroyed,
    then the block was freed.
\<close>

definition tracked :: "ptr \<Rightarrow> Ptr \<Rightarrow> heap \<Rightarrow> int \<Rightarrow> int \<Rightarrow> bool" where
  "tracked a i h ns nw \<longleftrightarrow>
     a \<noteq> nullptr \<and> 0 \<le> ns \<and> 0 \<le> nw \<and>
     (if allocated h < a
      then blocks h a = None \<and> ns = 0 \<and> nw = 0 \<and> events_of a h = []
      else (case blocks h a of
              Some cb \<Rightarrow>
                impl cb = i \<and> use_count_field cb = ns \<and>
                weak_use_count_field cb = nw + (if 0 < ns then 1 else 0) \<and>
                0 < weak_use_count_field cb \<and>
                events_of a h = (if 0 < ns then [] else destroy_events a i)
            | None \<Rightarrow>
                ns = 0 \<and> nw = 0 \<and> events_of a h = destroy_events a i @ [Block_freed a]))"

text \<open>The stored pointer and deleter of the block an operation allocates, if it allocates one.\<close>

fun creates :: "operation \<Rightarrow> Ptr option" where
  "creates (S_p p) = Some (Ptr_p p default_delete)"
| "creates (S_p_d p d) = Some (Ptr_p_d p d)"
| "creates (S_nullptr_d d) = Some (Ptr_p_d nullptr d)"
| "creates (S_reset_p i p) = Some (Ptr_p p default_delete)"
| "creates (S_reset_p_d i p d) = Some (Ptr_p_d p d)"
| "creates _ = None"

text \<open>The number of elements of a list that satisfy a predicate, as an integer.\<close>

definition cnt :: "('a \<Rightarrow> bool) \<Rightarrow> 'a list \<Rightarrow> int" where
  "cnt P xs = int (length (filter P xs))"

text \<open>The events of \<open>h'\<close> are those of \<open>h\<close> and, after them, some more.\<close>

definition grows :: "heap \<Rightarrow> heap \<Rightarrow> bool" where
  "grows h h' \<longleftrightarrow> (\<exists>es. events h' = events h @ es)"

section \<open>Programs that keep to the lifetime of their objects\<close>

text \<open>
  No live \<open>shared_ptr\<close> or \<open>weak_ptr\<close> object holds a pointer to a control block that is
  not allocated.
\<close>

definition no_dangling :: "state \<Rightarrow> bool" where
  "no_dangling s \<longleftrightarrow>
     (\<forall>n v. sget s n = Inr v \<longrightarrow> sp_control_block v \<noteq> nullptr \<longrightarrow>
        block_at (hp s) (sp_control_block v) \<noteq> None) \<and>
     (\<forall>k w. wget s k = Inr w \<longrightarrow> wp_control_block w \<noteq> nullptr \<longrightarrow>
        block_at (hp s) (wp_control_block w) \<noteq> None)"

text \<open>
  An operation is legal in a state when the objects it names are live, and, for the two
  promotions \<open>shared_ptr(wp)\<close> and \<open>wp.lock()\<close>, when \<open>wp\<close> holds a control block. A
  program is legal when each of its operations is legal in the state it is run in.
\<close>

definition live_s :: "state \<Rightarrow> nat \<Rightarrow> bool" where
  "live_s s n = (case sget s n of Inl e \<Rightarrow> False | Inr v \<Rightarrow> True)"

definition live_w :: "state \<Rightarrow> nat \<Rightarrow> bool" where
  "live_w s k = (case wget s k of Inl e \<Rightarrow> False | Inr w \<Rightarrow> True)"

definition bound_w :: "state \<Rightarrow> nat \<Rightarrow> bool" where
  "bound_w s k = (case wget s k of Inl e \<Rightarrow> False | Inr w \<Rightarrow> wp_control_block w \<noteq> nullptr)"

fun legal :: "operation \<Rightarrow> state \<Rightarrow> bool" where
  "legal (S_alias j p) s = live_s s j"
| "legal (S_copy j) s = live_s s j"
| "legal (S_move j) s = live_s s j"
| "legal (S_from_weak k) s = bound_w s k"
| "legal (S_dtor i) s = live_s s i"
| "legal (S_assign i j) s = (live_s s i \<and> live_s s j)"
| "legal (S_move_assign i j) s = (live_s s i \<and> live_s s j)"
| "legal (S_swap i j) s = (live_s s i \<and> live_s s j)"
| "legal (S_reset i) s = live_s s i"
| "legal (S_reset_p i p) s = live_s s i"
| "legal (S_reset_p_d i p d) s = live_s s i"
| "legal (W_from_shared j) s = live_s s j"
| "legal (W_copy k) s = live_w s k"
| "legal (W_dtor k) s = live_w s k"
| "legal (W_assign k k') s = (live_w s k \<and> live_w s k')"
| "legal (W_assign_shared k j) s = (live_w s k \<and> live_s s j)"
| "legal (W_swap k k') s = (live_w s k \<and> live_w s k')"
| "legal (W_reset k) s = live_w s k"
| "legal (W_lock k) s = bound_w s k"
| "legal _ s = True"

fun legal_run :: "operation list \<Rightarrow> state \<Rightarrow> bool" where
  "legal_run [] s = True"
| "legal_run (x # xs) s =
     (legal x s \<and>
      (case step x s of
         Inl (err, h) \<Rightarrow> legal_run xs (s\<lparr>hp := h\<rparr>)
       | Inr s' \<Rightarrow> legal_run xs s'))"

section \<open>Lemmas\<close>

subsection \<open>Results and the primitives of the control block\<close>

text \<open>
  Each primitive of the control block keeps \<open>tracked\<close>, with the number of owners or of
  observers changed by one for the block it works on. An increment of the strong counter
  needs an owner to be there already; a decrement needs a unit to give back.
\<close>

lemma bind_result_Inr [simp]: "bind_result (Inr x) f = f x"
  by (simp add: bind_result_def)

lemma bind_result_Inl [simp]: "bind_result (Inl e) f = Inl e"
  by (simp add: bind_result_def)

lemma bind_result_eq_Inr:
  "bind_result m f = Inr y \<longleftrightarrow> (\<exists>x. m = Inr x \<and> f x = Inr y)"
  by (cases m) simp_all

lemma tracked_inc_ref:
  "tracked a i h ns nw \<Longrightarrow> inc_ref b h = Inr h' \<Longrightarrow> (b = a \<Longrightarrow> 0 < ns) \<Longrightarrow>
   tracked a i h' (if b = a then ns + 1 else ns) nw"
  by (auto simp: tracked_def inc_ref_def block_at_def events_of_def
      split: option.splits if_splits)

lemma tracked_inc_wref:
  "tracked a i h ns nw \<Longrightarrow> inc_wref b h = Inr h' \<Longrightarrow>
   tracked a i h' ns (if b = a then nw + 1 else nw)"
  by (auto simp: tracked_def inc_wref_def block_at_def events_of_def
      split: option.splits if_splits)

lemma tracked_dec_wref:
  "tracked a i h ns nw \<Longrightarrow> dec_wref b h = Inr h' \<Longrightarrow> (b = a \<Longrightarrow> 0 < nw) \<Longrightarrow>
   tracked a i h' ns (if b = a then nw - 1 else nw)"
  by (auto simp: tracked_def dec_wref_def block_at_def events_of_def Let_def
      split: option.splits if_splits)

lemma tracked_new_control_block:
  "tracked a i h ns nw \<Longrightarrow> new_control_block cb h = (b, h') \<Longrightarrow>
   use_count_field cb = 1 \<Longrightarrow> weak_use_count_field cb = 1 \<Longrightarrow>
   (b = a \<Longrightarrow> impl cb = i) \<Longrightarrow>
   tracked a i h' (if b = a then ns + 1 else ns) nw"
  by (auto simp: tracked_def new_control_block_def events_of_def Let_def
      split: option.splits if_splits)

lemma events_of_events_update [simp]:
  "events_of a (events_update f h) = filter (\<lambda>e. block_of e = a) (f (events h))"
  by (simp add: events_of_def)

lemma events_of_blocks_update [simp]:
  "events_of a (blocks_update f h) = events_of a h"
  by (simp add: events_of_def)

lemma events_of_allocated_update [simp]:
  "events_of a (allocated_update f h) = events_of a h"
  by (simp add: events_of_def)

lemma filter_events [simp]:
  "filter (\<lambda>e. block_of e = a) (events h) = events_of a h"
  by (simp add: events_of_def)

lemma filter_destroy_events [simp]:
  "filter (\<lambda>e. block_of e = a) (destroy_events b i) = (if b = a then destroy_events a i else [])"
  by (simp add: destroy_events_def)

lemma dec_ref_Inr:
  assumes "dec_ref b h = Inr h'"
  obtains cb where "block_at h b = Some cb"
    and "h' = (if use_count_field cb - 1 \<noteq> 0
               then h\<lparr>blocks := (blocks h)(b \<mapsto> cb\<lparr>use_count_field := use_count_field cb - 1\<rparr>)\<rparr>
               else if weak_use_count_field cb - 1 = 0
               then h\<lparr>blocks := (blocks h)(b := None),
                      events := events h @ destroy_events b (impl cb) @ [Block_freed b]\<rparr>
               else h\<lparr>blocks := (blocks h)(b \<mapsto>
                        cb\<lparr>use_count_field := 0,
                           weak_use_count_field := weak_use_count_field cb - 1\<rparr>),
                      events := events h @ destroy_events b (impl cb)\<rparr>)"
proof -
  from assms obtain cb where cb: "block_at h b = Some cb"
    by (auto simp: dec_ref_def split: option.splits)
  then have nn: "b \<noteq> nullptr" by (auto simp: block_at_def split: if_splits)
  show thesis
  proof (rule that [OF cb])
    show "h' = (if use_count_field cb - 1 \<noteq> 0
               then h\<lparr>blocks := (blocks h)(b \<mapsto> cb\<lparr>use_count_field := use_count_field cb - 1\<rparr>)\<rparr>
               else if weak_use_count_field cb - 1 = 0
               then h\<lparr>blocks := (blocks h)(b := None),
                      events := events h @ destroy_events b (impl cb) @ [Block_freed b]\<rparr>
               else h\<lparr>blocks := (blocks h)(b \<mapsto>
                        cb\<lparr>use_count_field := 0,
                           weak_use_count_field := weak_use_count_field cb - 1\<rparr>),
                      events := events h @ destroy_events b (impl cb)\<rparr>)"
      using assms cb nn
      by (auto simp: dec_ref_def dec_wref_def block_at_def Let_def destroy_events_def
          split: if_splits)
  qed
qed

lemma tracked_other_block:
  assumes "tracked a i h ns nw" and "b \<noteq> a" and "block_at h b = Some cb"
    and "blocks h' = (blocks h)(b := x)" and "allocated h' = allocated h"
    and "events_of a h' = events_of a h"
  shows "tracked a i h' ns nw"
  using assms by (auto simp: tracked_def block_at_def split: if_splits option.splits)

lemma tracked_dec_ref:
  assumes t: "tracked a i h ns nw" and d: "dec_ref b h = Inr h'"
    and pos: "b = a \<Longrightarrow> 0 < ns"
  shows "tracked a i h' (if b = a then ns - 1 else ns) nw"
proof -
  from d obtain cb where cb: "block_at h b = Some cb"
    and h': "h' = (if use_count_field cb - 1 \<noteq> 0
               then h\<lparr>blocks := (blocks h)(b \<mapsto> cb\<lparr>use_count_field := use_count_field cb - 1\<rparr>)\<rparr>
               else if weak_use_count_field cb - 1 = 0
               then h\<lparr>blocks := (blocks h)(b := None),
                      events := events h @ destroy_events b (impl cb) @ [Block_freed b]\<rparr>
               else h\<lparr>blocks := (blocks h)(b \<mapsto>
                        cb\<lparr>use_count_field := 0,
                           weak_use_count_field := weak_use_count_field cb - 1\<rparr>),
                      events := events h @ destroy_events b (impl cb)\<rparr>)"
    by (rule dec_ref_Inr)
  show ?thesis
  proof (cases "b = a")
    case False
    have "tracked a i h' ns nw"
      using t False cb
    proof (rule tracked_other_block)
      show "blocks h' = (blocks h)(b := blocks h' b)"
        by (auto simp: h')
      show "allocated h' = allocated h" by (simp add: h')
      show "events_of a h' = events_of a h" using False by (simp add: h')
    qed
    with False show ?thesis by simp
  next
    case True
    with cb have live: "blocks h a = Some cb" and nn: "a \<noteq> nullptr"
      by (auto simp: block_at_def split: if_splits)
    from t live have fields: "impl cb = i" "use_count_field cb = ns"
      "weak_use_count_field cb = nw + (if 0 < ns then 1 else 0)"
      "events_of a h = (if 0 < ns then [] else destroy_events a i)"
      "\<not> allocated h < a" "0 \<le> nw"
      by (auto simp: tracked_def split: if_splits)
    from pos True have ns: "0 < ns" by simp
    show ?thesis
      using True nn fields ns
      by (simp add: h' tracked_def)
  qed
qed

lemma tracked_cong:
  "tracked a i h ns nw \<Longrightarrow> ns = ns' \<Longrightarrow> nw = nw' \<Longrightarrow> tracked a i h ns' nw'"
  by simp

lemma tracked_nonnull: "tracked a i h ns nw \<Longrightarrow> a \<noteq> nullptr"
  by (simp add: tracked_def)

lemma tracked_shared_ptr_copy:
  assumes "tracked a i h ns nw" and "shared_ptr_copy sp h = Inr (v, h')"
    and "sp_control_block sp = a \<Longrightarrow> 0 < ns"
  shows "tracked a i h' (if sp_control_block v = a then ns + 1 else ns) nw"
    and "sp_control_block v = sp_control_block sp"
  using assms tracked_inc_ref [of a i h ns nw "sp_control_block sp"]
  by (auto simp: shared_ptr_copy_def Let_def bind_result_eq_Inr dest: tracked_nonnull split: if_splits)

lemma tracked_shared_ptr_alias:
  assumes "tracked a i h ns nw" and "shared_ptr_alias sp p h = Inr (v, h')"
    and "sp_control_block sp = a \<Longrightarrow> 0 < ns"
  shows "tracked a i h' (if sp_control_block v = a then ns + 1 else ns) nw"
    and "sp_control_block v = sp_control_block sp"
  using assms tracked_inc_ref [of a i h ns nw "sp_control_block sp"]
  by (auto simp: shared_ptr_alias_def Let_def bind_result_eq_Inr dest: tracked_nonnull split: if_splits)

lemma tracked_live_block:
  "tracked a i h ns nw \<Longrightarrow> block_at h a = Some cb \<Longrightarrow> use_count_field cb = ns"
  by (auto simp: tracked_def block_at_def split: if_splits option.splits)

lemma tracked_shared_ptr_from_weak:
  assumes "tracked a i h ns nw" and "shared_ptr_from_weak wp h = Inr (v, h')"
  shows "tracked a i h' (if sp_control_block v = a then ns + 1 else ns) nw"
    and "sp_control_block v = wp_control_block wp"
proof -
  from assms(2) obtain e where e: "weak_ptr_expired wp h = Inr e" "\<not> e"
    and inc: "inc_ref (wp_control_block wp) h = Inr h'"
    and v: "v = \<lparr>sp_ptr = wp_ptr wp, sp_control_block = wp_control_block wp\<rparr>"
    by (auto simp: shared_ptr_from_weak_def Let_def bind_result_eq_Inr split: if_splits)
  show "sp_control_block v = wp_control_block wp" using v by simp
  have "wp_control_block wp = a \<Longrightarrow> 0 < ns"
  proof -
    assume eq: "wp_control_block wp = a"
    from inc obtain cb where cb: "block_at h a = Some cb"
      by (auto simp: inc_ref_def eq split: option.splits)
    with e eq assms(1) have "use_count_field cb \<noteq> 0"
      by (auto simp: weak_ptr_expired_def deref_def control_block_expired_def
          dest: tracked_nonnull split: if_splits)
    moreover have "use_count_field cb = ns" using assms(1) cb by (rule tracked_live_block)
    moreover have "0 \<le> ns" using assms(1) by (simp add: tracked_def)
    ultimately show "0 < ns" by simp
  qed
  with tracked_inc_ref [OF assms(1) inc] v
  show "tracked a i h' (if sp_control_block v = a then ns + 1 else ns) nw"
    by simp
qed

lemma tracked_weak_ptr_lock:
  assumes "tracked a i h ns nw" and "weak_ptr_lock wp h = Inr (v, h')"
  shows "tracked a i h' (if sp_control_block v = a then ns + 1 else ns) nw"
proof -
  from assms(2) obtain e where e: "weak_ptr_expired wp h = Inr e"
    and r: "if e then (v, h') = (shared_ptr_default, h)
            else shared_ptr_from_weak wp h = Inr (v, h')"
    by (auto simp: weak_ptr_lock_def bind_result_eq_Inr split: if_splits sum.splits)
  show ?thesis
  proof (cases e)
    case True
    with r assms(1) show ?thesis
      by (auto simp: shared_ptr_default_def dest: tracked_nonnull)
  next
    case False
    with r have "shared_ptr_from_weak wp h = Inr (v, h')" by simp
    with assms(1) show ?thesis by (rule tracked_shared_ptr_from_weak)
  qed
qed

lemma tracked_shared_ptr_dtor:
  assumes "tracked a i h ns nw" and "shared_ptr_dtor v h = Inr h'"
    and "sp_control_block v = a \<Longrightarrow> 0 < ns"
  shows "tracked a i h' (if sp_control_block v = a then ns - 1 else ns) nw"
  using assms tracked_dec_ref [of a i h ns nw "sp_control_block v"]
  by (auto simp: shared_ptr_dtor_def dest: tracked_nonnull split: if_splits)

lemma tracked_shared_ptr_p:
  assumes "tracked a i h ns nw" and "shared_ptr_p p h = (v, h')"
    and "a = Suc (allocated h) \<Longrightarrow> Ptr_p p default_delete = i"
  shows "tracked a i h' (if sp_control_block v = a then ns + 1 else ns) nw"
    and "sp_control_block v = Suc (allocated h)"
  using assms
    tracked_new_control_block [of a i h ns nw "control_block_p p" "Suc (allocated h)"]
  by (auto simp: shared_ptr_p_def Let_def control_block_p_def new_control_block_def
      split: prod.splits)

lemma tracked_shared_ptr_p_d:
  assumes "tracked a i h ns nw" and "shared_ptr_p_d p d h = (v, h')"
    and "a = Suc (allocated h) \<Longrightarrow> Ptr_p_d p d = i"
  shows "tracked a i h' (if sp_control_block v = a then ns + 1 else ns) nw"
    and "sp_control_block v = Suc (allocated h)"
  using assms
    tracked_new_control_block [of a i h ns nw "control_block_p_d p d" "Suc (allocated h)"]
  by (auto simp: shared_ptr_p_d_def Let_def control_block_p_d_def new_control_block_def
      split: prod.splits)

lemma tracked_shared_ptr_nullptr_d:
  assumes "tracked a i h ns nw" and "shared_ptr_nullptr_d d h = (v, h')"
    and "a = Suc (allocated h) \<Longrightarrow> Ptr_p_d nullptr d = i"
  shows "tracked a i h' (if sp_control_block v = a then ns + 1 else ns) nw"
    and "sp_control_block v = Suc (allocated h)"
  using assms
    tracked_new_control_block [of a i h ns nw "control_block_p_d nullptr d" "Suc (allocated h)"]
  by (auto simp: shared_ptr_nullptr_d_def Let_def control_block_p_d_def new_control_block_def
      split: prod.splits)

lemma tracked_weak_ptr_from_shared:
  assumes "tracked a i h ns nw" and "weak_ptr_from_shared sp h = Inr (w, h')"
  shows "tracked a i h' ns (if wp_control_block w = a then nw + 1 else nw)"
    and "wp_control_block w = sp_control_block sp"
  using assms tracked_inc_wref [of a i h ns nw "sp_control_block sp"]
  by (auto simp: weak_ptr_from_shared_def Let_def bind_result_eq_Inr dest: tracked_nonnull
      split: if_splits)

lemma tracked_weak_ptr_copy:
  assumes "tracked a i h ns nw" and "weak_ptr_copy wp h = Inr (w, h')"
  shows "tracked a i h' ns (if wp_control_block w = a then nw + 1 else nw)"
    and "wp_control_block w = wp_control_block wp"
  using assms tracked_inc_wref [of a i h ns nw "wp_control_block wp"]
  by (auto simp: weak_ptr_copy_def Let_def bind_result_eq_Inr dest: tracked_nonnull
      split: if_splits)

lemma tracked_weak_ptr_dtor:
  assumes "tracked a i h ns nw" and "weak_ptr_dtor w h = Inr h'"
    and "wp_control_block w = a \<Longrightarrow> 0 < nw"
  shows "tracked a i h' ns (if wp_control_block w = a then nw - 1 else nw)"
  using assms tracked_dec_wref [of a i h ns nw "wp_control_block w"]
  by (auto simp: weak_ptr_dtor_def dest: tracked_nonnull split: if_splits)


subsection \<open>One operation\<close>

text \<open>
  Every operation keeps \<open>tracked\<close> for every address, with the owners and observers
  counted in the state; an address that the operation allocates is tracked with the
  stored pointer and deleter the operation gives the new block.
\<close>

lemma count_update:
  "i < length xs \<Longrightarrow>
   int (length (filter P (xs[i := y]))) =
   int (length (filter P xs)) - (if P (xs ! i) then 1 else 0) + (if P y then 1 else 0)"
proof (induction xs arbitrary: i)
  case Nil
  then show ?case by simp
next
  case (Cons x xs)
  show ?case
  proof (cases i)
    case 0
    then show ?thesis by simp
  next
    case (Suc n)
    with Cons.prems have "n < length xs" by simp
    from Cons.IH [OF this] Suc show ?thesis by (auto split: if_splits)
  qed
qed

lemma count_pos:
  assumes "i < length xs" and "P (xs ! i)"
  shows "0 < int (length (filter P xs))"
proof -
  have "xs ! i \<in> set (filter P xs)" using assms by simp
  then have "filter P xs \<noteq> []" by (cases "filter P xs") auto
  then show ?thesis by simp
qed

lemma sget_Inr: "sget s i = Inr v \<longleftrightarrow> i < length (svars s) \<and> svars s ! i = Some v"
  by (auto simp: sget_def split: option.splits)

lemma wget_Inr: "wget s k = Inr w \<longleftrightarrow> k < length (wvars s) \<and> wvars s ! k = Some w"
  by (auto simp: wget_def split: option.splits)

lemma live_shared_pos:
  "sget s i = Inr v \<Longrightarrow> sp_control_block v = a \<Longrightarrow> 0 < live_shared a s"
  unfolding live_shared_def sget_Inr
  by (rule count_pos) (auto simp: shares_def)

lemma live_weak_pos:
  "wget s k = Inr w \<Longrightarrow> wp_control_block w = a \<Longrightarrow> 0 < live_weak a s"
  unfolding live_weak_def wget_Inr
  by (rule count_pos) (auto simp: observes_def)

lemma new_shared_simps [simp]:
  "hp (new_shared s v h) = h"
  "live_shared a (new_shared s v h) = live_shared a s + (if sp_control_block v = a then 1 else 0)"
  "live_weak a (new_shared s v h) = live_weak a s"
  by (simp_all add: new_shared_def live_shared_def live_weak_def shares_def)

lemma new_weak_simps [simp]:
  "hp (new_weak s w h) = h"
  "live_weak a (new_weak s w h) = live_weak a s + (if wp_control_block w = a then 1 else 0)"
  "live_shared a (new_weak s w h) = live_shared a s"
  by (simp_all add: new_weak_def live_shared_def live_weak_def observes_def)

lemma live_shared_same: "svars s' = svars s \<Longrightarrow> live_shared a s' = live_shared a s"
  by (simp add: live_shared_def)

lemma live_weak_same: "wvars s' = wvars s \<Longrightarrow> live_weak a s' = live_weak a s"
  by (simp add: live_weak_def)

lemma step_S_default:
  assumes "tracked a i (hp s) (live_shared a s) (live_weak a s)" and "step S_default s = Inr s'"
  shows "tracked a i (hp s') (live_shared a s') (live_weak a s')"
  using assms by (auto simp: shared_ptr_default_def dest: tracked_nonnull)

lemma step_S_p:
  assumes "tracked a i (hp s) (live_shared a s) (live_weak a s)" and "step (S_p p) s = Inr s'"
    and "a = Suc (allocated (hp s)) \<Longrightarrow> Ptr_p p default_delete = i"
  shows "tracked a i (hp s') (live_shared a s') (live_weak a s')"
proof -
  obtain v h' where c: "shared_ptr_p p (hp s) = (v, h')" by (cases "shared_ptr_p p (hp s)")
  with assms(2) have s': "s' = new_shared s v h'" by simp
  from tracked_shared_ptr_p(1) [OF assms(1) c assms(3)] show ?thesis
    by (simp add: s' split: if_splits)
qed

lemma step_S_p_d:
  assumes "tracked a i (hp s) (live_shared a s) (live_weak a s)" and "step (S_p_d p d) s = Inr s'"
    and "a = Suc (allocated (hp s)) \<Longrightarrow> Ptr_p_d p d = i"
  shows "tracked a i (hp s') (live_shared a s') (live_weak a s')"
proof -
  obtain v h' where c: "shared_ptr_p_d p d (hp s) = (v, h')" by (cases "shared_ptr_p_d p d (hp s)")
  with assms(2) have s': "s' = new_shared s v h'" by simp
  from tracked_shared_ptr_p_d(1) [OF assms(1) c assms(3)] show ?thesis
    by (simp add: s' split: if_splits)
qed

lemma step_S_nullptr_d:
  assumes "tracked a i (hp s) (live_shared a s) (live_weak a s)"
    and "step (S_nullptr_d d) s = Inr s'"
    and "a = Suc (allocated (hp s)) \<Longrightarrow> Ptr_p_d nullptr d = i"
  shows "tracked a i (hp s') (live_shared a s') (live_weak a s')"
proof -
  obtain v h' where c: "shared_ptr_nullptr_d d (hp s) = (v, h')"
    by (cases "shared_ptr_nullptr_d d (hp s)")
  with assms(2) have s': "s' = new_shared s v h'" by simp
  from tracked_shared_ptr_nullptr_d(1) [OF assms(1) c assms(3)] show ?thesis
    by (simp add: s' split: if_splits)
qed

lemma step_S_alias:
  assumes "tracked a i (hp s) (live_shared a s) (live_weak a s)"
    and "step (S_alias j p) s = Inr s'"
  shows "tracked a i (hp s') (live_shared a s') (live_weak a s')"
proof -
  from assms(2) obtain sp v h' where g: "sget s j = Inr sp"
    and c: "shared_ptr_alias sp p (hp s) = Inr (v, h')" and s': "s' = new_shared s v h'"
    by (auto simp: bind_result_eq_Inr)
  have "sp_control_block sp = a \<Longrightarrow> 0 < live_shared a s" using g by (rule live_shared_pos)
  from tracked_shared_ptr_alias(1) [OF assms(1) c this] show ?thesis
    by (simp add: s' split: if_splits)
qed

lemma step_S_copy:
  assumes "tracked a i (hp s) (live_shared a s) (live_weak a s)"
    and "step (S_copy j) s = Inr s'"
  shows "tracked a i (hp s') (live_shared a s') (live_weak a s')"
proof -
  from assms(2) obtain sp v h' where g: "sget s j = Inr sp"
    and c: "shared_ptr_copy sp (hp s) = Inr (v, h')" and s': "s' = new_shared s v h'"
    by (auto simp: bind_result_eq_Inr)
  have "sp_control_block sp = a \<Longrightarrow> 0 < live_shared a s" using g by (rule live_shared_pos)
  from tracked_shared_ptr_copy(1) [OF assms(1) c this] show ?thesis
    by (simp add: s' split: if_splits)
qed

lemma step_S_from_weak:
  assumes "tracked a i (hp s) (live_shared a s) (live_weak a s)"
    and "step (S_from_weak k) s = Inr s'"
  shows "tracked a i (hp s') (live_shared a s') (live_weak a s')"
proof -
  from assms(2) obtain wp v h' where
    c: "shared_ptr_from_weak wp (hp s) = Inr (v, h')" and s': "s' = new_shared s v h'"
    by (auto simp: bind_result_eq_Inr)
  from tracked_shared_ptr_from_weak(1) [OF assms(1) c] show ?thesis
    by (simp add: s' split: if_splits)
qed

lemma step_W_lock:
  assumes "tracked a i (hp s) (live_shared a s) (live_weak a s)"
    and "step (W_lock k) s = Inr s'"
  shows "tracked a i (hp s') (live_shared a s') (live_weak a s')"
proof -
  from assms(2) obtain wp v h' where
    c: "weak_ptr_lock wp (hp s) = Inr (v, h')" and s': "s' = new_shared s v h'"
    by (auto simp: bind_result_eq_Inr)
  from tracked_weak_ptr_lock [OF assms(1) c] show ?thesis
    by (simp add: s' split: if_splits)
qed

lemma step_S_move:
  assumes "tracked a i (hp s) (live_shared a s) (live_weak a s)"
    and "step (S_move j) s = Inr s'"
  shows "tracked a i (hp s') (live_shared a s') (live_weak a s')"
proof -
  from assms(2) obtain sp where g: "sget s j = Inr sp"
    by (cases "sget s j") simp_all
  with assms(2) have
    "new_shared (s\<lparr>svars := (svars s)[j := Some shared_ptr_default]\<rparr>)
       \<lparr>sp_ptr = sp_ptr sp, sp_control_block = sp_control_block sp\<rparr> (hp s) = s'"
    by (simp add: shared_ptr_move_def shared_ptr_default_def)
  then have s': "s' = new_shared (s\<lparr>svars := (svars s)[j := Some shared_ptr_default]\<rparr>)
                    \<lparr>sp_ptr = sp_ptr sp, sp_control_block = sp_control_block sp\<rparr> (hp s)"
    by simp
  from g have j: "j < length (svars s)" "svars s ! j = Some sp" by (simp_all add: sget_Inr)
  have nn: "a \<noteq> nullptr" using assms(1) by (rule tracked_nonnull)
  have "live_shared a s' = live_shared a s"
    using j nn
    by (simp add: s' live_shared_def new_shared_def count_update shares_def
        shared_ptr_default_def)
  moreover have "live_weak a s' = live_weak a s"
    by (simp add: s' live_weak_def new_shared_def)
  moreover have "hp s' = hp s" by (simp add: s')
  ultimately show ?thesis using assms(1) by simp
qed

lemma step_S_dtor:
  assumes T: "tracked a i (hp s) (live_shared a s) (live_weak a s)"
    and S: "step (S_dtor n) s = Inr s'"
  shows "tracked a i (hp s') (live_shared a s') (live_weak a s')"
proof -
  from S obtain this h' where g: "sget s n = Inr this"
    and d: "shared_ptr_dtor this (hp s) = Inr h'"
    and s': "s' = s\<lparr>svars := (svars s)[n := None], hp := h'\<rparr>"
    by (auto simp: bind_result_eq_Inr)
  from g have n: "n < length (svars s)" "svars s ! n = Some this" by (simp_all add: sget_Inr)
  have "sp_control_block this = a \<Longrightarrow> 0 < live_shared a s" using g by (rule live_shared_pos)
  from tracked_shared_ptr_dtor [OF T d this] n show ?thesis
    by (simp add: s' live_shared_def live_weak_def count_update shares_def split: if_splits)
qed

lemma step_S_assign:
  assumes T: "tracked a i (hp s) (live_shared a s) (live_weak a s)"
    and S: "step (S_assign n m) s = Inr s'"
  shows "tracked a i (hp s') (live_shared a s') (live_weak a s')"
proof -
  from S obtain sp tmp h1 this h2 where gm: "sget s m = Inr sp"
    and c: "shared_ptr_copy sp (hp s) = Inr (tmp, h1)"
    and gn: "sget s n = Inr this"
    and d: "shared_ptr_dtor \<lparr>sp_ptr = sp_ptr this, sp_control_block = sp_control_block this\<rparr> h1
            = Inr h2"
    and s': "s' = s\<lparr>svars := (svars s)
               [n := Some \<lparr>sp_ptr = sp_ptr tmp, sp_control_block = sp_control_block tmp\<rparr>],
             hp := h2\<rparr>"
    by (auto simp: bind_result_eq_Inr shared_ptr_swap_def)
  from gn have n: "n < length (svars s)" "svars s ! n = Some this" by (simp_all add: sget_Inr)
  have pm: "sp_control_block sp = a \<Longrightarrow> 0 < live_shared a s" using gm by (rule live_shared_pos)
  have pn: "sp_control_block this = a \<Longrightarrow> 0 < live_shared a s" using gn by (rule live_shared_pos)
  note T1 = tracked_shared_ptr_copy(1) [OF T c pm]
  have "sp_control_block this = a \<Longrightarrow>
        0 < (if sp_control_block tmp = a then live_shared a s + 1 else live_shared a s)"
    using pn by simp
  from tracked_shared_ptr_dtor [OF T1 d this] n show ?thesis
    by (simp add: s' live_shared_def live_weak_def count_update shares_def split: if_splits)
qed

lemma step_S_move_assign:
  assumes T: "tracked a i (hp s) (live_shared a s) (live_weak a s)"
    and S: "step (S_move_assign n m) s = Inr s'"
  shows "tracked a i (hp s') (live_shared a s') (live_weak a s')"
proof -
  have nn: "a \<noteq> nullptr" using T by (rule tracked_nonnull)
  from S obtain sp where gm: "sget s m = Inr sp"
    by (cases "sget s m") simp_all
  define s1 where "s1 = s\<lparr>svars := (svars s)[m := Some shared_ptr_default]\<rparr>"
  from gm have m: "m < length (svars s)" "svars s ! m = Some sp" by (simp_all add: sget_Inr)
  from S gm obtain this h' where gn: "sget s1 n = Inr this"
    and d: "shared_ptr_dtor \<lparr>sp_ptr = sp_ptr this, sp_control_block = sp_control_block this\<rparr>
              (hp s) = Inr h'"
    and s': "s' = s1\<lparr>svars := (svars s1)
               [n := Some \<lparr>sp_ptr = sp_ptr sp, sp_control_block = sp_control_block sp\<rparr>],
             hp := h'\<rparr>"
    by (auto simp: bind_result_eq_Inr shared_ptr_swap_def shared_ptr_move_def s1_def
        shared_ptr_default_def Let_def)
  from gn have n: "n < length (svars s1)" "svars s1 ! n = Some this" by (simp_all add: sget_Inr)
  have l1: "live_shared a s1 = live_shared a s - (if sp_control_block sp = a then 1 else 0)"
    using m nn
    by (simp add: s1_def live_shared_def count_update shares_def shared_ptr_default_def)
  have pn: "sp_control_block this = a \<Longrightarrow> 0 < live_shared a s1"
    using gn by (rule live_shared_pos)
  have "sp_control_block this = a \<Longrightarrow> 0 < live_shared a s"
    using pn l1 by (simp split: if_splits)
  note T1 = tracked_shared_ptr_dtor [OF T d] this
  have l2: "live_shared a s' = live_shared a s1
              - (if sp_control_block this = a then 1 else 0)
              + (if sp_control_block sp = a then 1 else 0)"
    using n by (simp add: s' live_shared_def count_update shares_def)
  have w: "live_weak a s' = live_weak a s" by (simp add: s' s1_def live_weak_def)
  have h: "hp s' = h'" by (simp add: s')
  from T1 show ?thesis
    unfolding h w l2 l1 by (simp split: if_splits)
qed

lemma step_S_swap:
  assumes T: "tracked a i (hp s) (live_shared a s) (live_weak a s)"
    and S: "step (S_swap n m) s = Inr s'"
  shows "tracked a i (hp s') (live_shared a s') (live_weak a s')"
proof -
  from S obtain this sp where gn: "sget s n = Inr this" and gm: "sget s m = Inr sp"
    and s': "s' = s\<lparr>svars := (svars s)
               [n := Some \<lparr>sp_ptr = sp_ptr sp, sp_control_block = sp_control_block sp\<rparr>,
                m := Some \<lparr>sp_ptr = sp_ptr this, sp_control_block = sp_control_block this\<rparr>]\<rparr>"
    by (auto simp: bind_result_eq_Inr shared_ptr_swap_def)
  from gn have n: "n < length (svars s)" "svars s ! n = Some this" by (simp_all add: sget_Inr)
  from gm have m: "m < length (svars s)" "svars s ! m = Some sp" by (simp_all add: sget_Inr)
  have "live_shared a s' = live_shared a s"
    using n m
    by (cases "n = m")
      (auto simp: s' live_shared_def count_update shares_def nth_list_update)
  moreover have "live_weak a s' = live_weak a s" by (simp add: s' live_weak_def)
  moreover have "hp s' = hp s" by (simp add: s')
  ultimately show ?thesis using T by simp
qed

lemma step_S_reset:
  assumes T: "tracked a i (hp s) (live_shared a s) (live_weak a s)"
    and S: "step (S_reset n) s = Inr s'"
  shows "tracked a i (hp s') (live_shared a s') (live_weak a s')"
proof -
  have nn: "a \<noteq> nullptr" using T by (rule tracked_nonnull)
  from S obtain this h' where gn: "sget s n = Inr this"
    and d: "shared_ptr_dtor \<lparr>sp_ptr = sp_ptr this, sp_control_block = sp_control_block this\<rparr>
              (hp s) = Inr h'"
    and s': "s' = s\<lparr>svars := (svars s)[n := Some shared_ptr_default], hp := h'\<rparr>"
    by (auto simp: bind_result_eq_Inr shared_ptr_swap_def shared_ptr_default_def)
  from gn have n: "n < length (svars s)" "svars s ! n = Some this" by (simp_all add: sget_Inr)
  have "sp_control_block this = a \<Longrightarrow> 0 < live_shared a s" using gn by (rule live_shared_pos)
  from tracked_shared_ptr_dtor [OF T d] this n nn show ?thesis
    by (simp add: s' live_shared_def live_weak_def count_update shares_def
        shared_ptr_default_def split: if_splits)
qed

lemma step_S_reset_new:
  assumes T: "tracked a i (hp s) (live_shared a s) (live_weak a s)"
    and gn: "sget s n = Inr this"
    and T1: "tracked a i h1 (if sp_control_block tmp = a then live_shared a s + 1
                             else live_shared a s) (live_weak a s)"
    and d: "shared_ptr_dtor \<lparr>sp_ptr = sp_ptr this, sp_control_block = sp_control_block this\<rparr> h1
            = Inr h2"
    and s': "s' = s\<lparr>svars := (svars s)
               [n := Some \<lparr>sp_ptr = sp_ptr tmp, sp_control_block = sp_control_block tmp\<rparr>],
             hp := h2\<rparr>"
  shows "tracked a i (hp s') (live_shared a s') (live_weak a s')"
proof -
  from gn have n: "n < length (svars s)" "svars s ! n = Some this" by (simp_all add: sget_Inr)
  have pn: "sp_control_block this = a \<Longrightarrow> 0 < live_shared a s" using gn by (rule live_shared_pos)
  have "sp_control_block this = a \<Longrightarrow>
        0 < (if sp_control_block tmp = a then live_shared a s + 1 else live_shared a s)"
    using pn by simp
  from tracked_shared_ptr_dtor [OF T1 d this] n show ?thesis
    by (simp add: s' live_shared_def live_weak_def count_update shares_def split: if_splits)
qed

lemma step_S_reset_p:
  assumes T: "tracked a i (hp s) (live_shared a s) (live_weak a s)"
    and S: "step (S_reset_p n p) s = Inr s'"
    and C: "a = Suc (allocated (hp s)) \<Longrightarrow> Ptr_p p default_delete = i"
  shows "tracked a i (hp s') (live_shared a s') (live_weak a s')"
proof -
  obtain tmp h1 where c: "shared_ptr_p p (hp s) = (tmp, h1)" by (cases "shared_ptr_p p (hp s)")
  with S obtain this h2 where gn: "sget s n = Inr this"
    and d: "shared_ptr_dtor \<lparr>sp_ptr = sp_ptr this, sp_control_block = sp_control_block this\<rparr> h1
            = Inr h2"
    and s': "s' = s\<lparr>svars := (svars s)
               [n := Some \<lparr>sp_ptr = sp_ptr tmp, sp_control_block = sp_control_block tmp\<rparr>],
             hp := h2\<rparr>"
    by (auto simp: bind_result_eq_Inr shared_ptr_swap_def)
  from T gn tracked_shared_ptr_p(1) [OF T c C] d s' show ?thesis
    by (rule step_S_reset_new)
qed

lemma step_S_reset_p_d:
  assumes T: "tracked a i (hp s) (live_shared a s) (live_weak a s)"
    and S: "step (S_reset_p_d n p dl) s = Inr s'"
    and C: "a = Suc (allocated (hp s)) \<Longrightarrow> Ptr_p_d p dl = i"
  shows "tracked a i (hp s') (live_shared a s') (live_weak a s')"
proof -
  obtain tmp h1 where c: "shared_ptr_p_d p dl (hp s) = (tmp, h1)"
    by (cases "shared_ptr_p_d p dl (hp s)")
  with S obtain this h2 where gn: "sget s n = Inr this"
    and d: "shared_ptr_dtor \<lparr>sp_ptr = sp_ptr this, sp_control_block = sp_control_block this\<rparr> h1
            = Inr h2"
    and s': "s' = s\<lparr>svars := (svars s)
               [n := Some \<lparr>sp_ptr = sp_ptr tmp, sp_control_block = sp_control_block tmp\<rparr>],
             hp := h2\<rparr>"
    by (auto simp: bind_result_eq_Inr shared_ptr_swap_def)
  from T gn tracked_shared_ptr_p_d(1) [OF T c C] d s' show ?thesis
    by (rule step_S_reset_new)
qed

lemma step_W_default:
  assumes "tracked a i (hp s) (live_shared a s) (live_weak a s)" and "step W_default s = Inr s'"
  shows "tracked a i (hp s') (live_shared a s') (live_weak a s')"
  using assms by (auto simp: weak_ptr_default_def dest: tracked_nonnull)

lemma step_W_from_shared:
  assumes T: "tracked a i (hp s) (live_shared a s) (live_weak a s)"
    and S: "step (W_from_shared m) s = Inr s'"
  shows "tracked a i (hp s') (live_shared a s') (live_weak a s')"
proof -
  from S obtain sp w h' where
    c: "weak_ptr_from_shared sp (hp s) = Inr (w, h')" and s': "s' = new_weak s w h'"
    by (auto simp: bind_result_eq_Inr)
  from tracked_weak_ptr_from_shared(1) [OF T c] show ?thesis
    by (simp add: s' split: if_splits)
qed

lemma step_W_copy:
  assumes T: "tracked a i (hp s) (live_shared a s) (live_weak a s)"
    and S: "step (W_copy k) s = Inr s'"
  shows "tracked a i (hp s') (live_shared a s') (live_weak a s')"
proof -
  from S obtain wp w h' where
    c: "weak_ptr_copy wp (hp s) = Inr (w, h')" and s': "s' = new_weak s w h'"
    by (auto simp: bind_result_eq_Inr)
  from tracked_weak_ptr_copy(1) [OF T c] show ?thesis
    by (simp add: s' split: if_splits)
qed

lemma step_W_dtor:
  assumes T: "tracked a i (hp s) (live_shared a s) (live_weak a s)"
    and S: "step (W_dtor k) s = Inr s'"
  shows "tracked a i (hp s') (live_shared a s') (live_weak a s')"
proof -
  from S obtain this h' where g: "wget s k = Inr this"
    and d: "weak_ptr_dtor this (hp s) = Inr h'"
    and s': "s' = s\<lparr>wvars := (wvars s)[k := None], hp := h'\<rparr>"
    by (auto simp: bind_result_eq_Inr)
  from g have k: "k < length (wvars s)" "wvars s ! k = Some this" by (simp_all add: wget_Inr)
  have "wp_control_block this = a \<Longrightarrow> 0 < live_weak a s" using g by (rule live_weak_pos)
  from tracked_weak_ptr_dtor [OF T d this] k show ?thesis
    by (simp add: s' live_shared_def live_weak_def count_update observes_def split: if_splits)
qed

lemma step_W_assign_new:
  assumes T: "tracked a i (hp s) (live_shared a s) (live_weak a s)"
    and gk: "wget s k = Inr this"
    and T1: "tracked a i h1 (live_shared a s)
               (if wp_control_block tmp = a then live_weak a s + 1 else live_weak a s)"
    and d: "weak_ptr_dtor \<lparr>wp_ptr = wp_ptr this, wp_control_block = wp_control_block this\<rparr> h1
            = Inr h2"
    and s': "s' = s\<lparr>wvars := (wvars s)
               [k := Some \<lparr>wp_ptr = wp_ptr tmp, wp_control_block = wp_control_block tmp\<rparr>],
             hp := h2\<rparr>"
  shows "tracked a i (hp s') (live_shared a s') (live_weak a s')"
proof -
  from gk have k: "k < length (wvars s)" "wvars s ! k = Some this" by (simp_all add: wget_Inr)
  have pk: "wp_control_block this = a \<Longrightarrow> 0 < live_weak a s" using gk by (rule live_weak_pos)
  have "wp_control_block this = a \<Longrightarrow>
        0 < (if wp_control_block tmp = a then live_weak a s + 1 else live_weak a s)"
    using pk by simp
  from tracked_weak_ptr_dtor [OF T1 d this] k show ?thesis
    by (simp add: s' live_shared_def live_weak_def count_update observes_def split: if_splits)
qed

lemma step_W_assign:
  assumes T: "tracked a i (hp s) (live_shared a s) (live_weak a s)"
    and S: "step (W_assign k k') s = Inr s'"
  shows "tracked a i (hp s') (live_shared a s') (live_weak a s')"
proof -
  from S obtain wp tmp h1 this h2 where
    c: "weak_ptr_copy wp (hp s) = Inr (tmp, h1)"
    and gk: "wget s k = Inr this"
    and d: "weak_ptr_dtor \<lparr>wp_ptr = wp_ptr this, wp_control_block = wp_control_block this\<rparr> h1
            = Inr h2"
    and s': "s' = s\<lparr>wvars := (wvars s)
               [k := Some \<lparr>wp_ptr = wp_ptr tmp, wp_control_block = wp_control_block tmp\<rparr>],
             hp := h2\<rparr>"
    by (auto simp: bind_result_eq_Inr weak_ptr_swap_def)
  from T gk tracked_weak_ptr_copy(1) [OF T c] d s' show ?thesis
    by (rule step_W_assign_new)
qed

lemma step_W_assign_shared:
  assumes T: "tracked a i (hp s) (live_shared a s) (live_weak a s)"
    and S: "step (W_assign_shared k m) s = Inr s'"
  shows "tracked a i (hp s') (live_shared a s') (live_weak a s')"
proof -
  from S obtain sp tmp h1 this h2 where
    c: "weak_ptr_from_shared sp (hp s) = Inr (tmp, h1)"
    and gk: "wget s k = Inr this"
    and d: "weak_ptr_dtor \<lparr>wp_ptr = wp_ptr this, wp_control_block = wp_control_block this\<rparr> h1
            = Inr h2"
    and s': "s' = s\<lparr>wvars := (wvars s)
               [k := Some \<lparr>wp_ptr = wp_ptr tmp, wp_control_block = wp_control_block tmp\<rparr>],
             hp := h2\<rparr>"
    by (auto simp: bind_result_eq_Inr weak_ptr_swap_def)
  from T gk tracked_weak_ptr_from_shared(1) [OF T c] d s' show ?thesis
    by (rule step_W_assign_new)
qed

lemma step_W_swap:
  assumes T: "tracked a i (hp s) (live_shared a s) (live_weak a s)"
    and S: "step (W_swap k k') s = Inr s'"
  shows "tracked a i (hp s') (live_shared a s') (live_weak a s')"
proof -
  from S obtain this wp where gk: "wget s k = Inr this" and gk': "wget s k' = Inr wp"
    and s': "s' = s\<lparr>wvars := (wvars s)
               [k := Some \<lparr>wp_ptr = wp_ptr wp, wp_control_block = wp_control_block wp\<rparr>,
                k' := Some \<lparr>wp_ptr = wp_ptr this, wp_control_block = wp_control_block this\<rparr>]\<rparr>"
    by (auto simp: bind_result_eq_Inr weak_ptr_swap_def)
  from gk have k: "k < length (wvars s)" "wvars s ! k = Some this" by (simp_all add: wget_Inr)
  from gk' have k': "k' < length (wvars s)" "wvars s ! k' = Some wp" by (simp_all add: wget_Inr)
  have "live_weak a s' = live_weak a s"
    using k k'
    by (cases "k = k'")
      (auto simp: s' live_weak_def count_update observes_def nth_list_update)
  moreover have "live_shared a s' = live_shared a s" by (simp add: s' live_shared_def)
  moreover have "hp s' = hp s" by (simp add: s')
  ultimately show ?thesis using T by simp
qed

lemma step_W_reset:
  assumes T: "tracked a i (hp s) (live_shared a s) (live_weak a s)"
    and S: "step (W_reset k) s = Inr s'"
  shows "tracked a i (hp s') (live_shared a s') (live_weak a s')"
proof -
  have nn: "a \<noteq> nullptr" using T by (rule tracked_nonnull)
  from S obtain this h' where gk: "wget s k = Inr this"
    and d: "weak_ptr_dtor \<lparr>wp_ptr = wp_ptr this, wp_control_block = wp_control_block this\<rparr>
              (hp s) = Inr h'"
    and s': "s' = s\<lparr>wvars := (wvars s)[k := Some weak_ptr_default], hp := h'\<rparr>"
    by (auto simp: bind_result_eq_Inr weak_ptr_swap_def weak_ptr_default_def)
  from gk have k: "k < length (wvars s)" "wvars s ! k = Some this" by (simp_all add: wget_Inr)
  have "wp_control_block this = a \<Longrightarrow> 0 < live_weak a s" using gk by (rule live_weak_pos)
  from tracked_weak_ptr_dtor [OF T d] this k nn show ?thesis
    by (simp add: s' live_shared_def live_weak_def count_update observes_def
        weak_ptr_default_def split: if_splits)
qed

lemma step_tracked:
  assumes T: "tracked a i (hp s) (live_shared a s) (live_weak a s)"
    and S: "step x s = Inr s'"
    and C: "\<And>i'. creates x = Some i' \<Longrightarrow> a = Suc (allocated (hp s)) \<Longrightarrow> i' = i"
  shows "tracked a i (hp s') (live_shared a s') (live_weak a s')"
proof (cases x)
  case S_default
  with T S show ?thesis by (simp only: step_S_default)
next
  case (S_p p)
  with T S C show ?thesis by (auto intro: step_S_p)
next
  case (S_p_d p d)
  with T S C show ?thesis by (auto intro: step_S_p_d)
next
  case (S_nullptr_d d)
  with T S C show ?thesis by (auto intro: step_S_nullptr_d)
next
  case (S_alias j p)
  with T S show ?thesis by (auto intro: step_S_alias)
next
  case (S_copy j)
  with T S show ?thesis by (auto intro: step_S_copy)
next
  case (S_move j)
  with T S show ?thesis by (auto intro: step_S_move)
next
  case (S_from_weak k)
  with T S show ?thesis by (auto intro: step_S_from_weak)
next
  case (S_dtor n)
  with T S show ?thesis by (auto intro: step_S_dtor)
next
  case (S_assign n m)
  with T S show ?thesis by (auto intro: step_S_assign)
next
  case (S_move_assign n m)
  with T S show ?thesis by (auto intro: step_S_move_assign)
next
  case (S_swap n m)
  with T S show ?thesis by (auto intro: step_S_swap)
next
  case (S_reset n)
  with T S show ?thesis by (auto intro: step_S_reset)
next
  case (S_reset_p n p)
  with T S C show ?thesis by (auto intro: step_S_reset_p)
next
  case (S_reset_p_d n p d)
  with T S C show ?thesis by (auto intro: step_S_reset_p_d)
next
  case W_default
  with T S show ?thesis by (auto intro: step_W_default)
next
  case (W_from_shared m)
  with T S show ?thesis by (auto intro: step_W_from_shared)
next
  case (W_copy k)
  with T S show ?thesis by (auto intro: step_W_copy)
next
  case (W_dtor k)
  with T S show ?thesis by (auto intro: step_W_dtor)
next
  case (W_assign k k')
  with T S show ?thesis by (auto intro: step_W_assign)
next
  case (W_assign_shared k m)
  with T S show ?thesis by (auto intro: step_W_assign_shared)
next
  case (W_swap k k')
  with T S show ?thesis by (auto intro: step_W_swap)
next
  case (W_reset k)
  with T S show ?thesis by (auto intro: step_W_reset)
next
  case (W_lock k)
  with T S show ?thesis by (auto intro: step_W_lock)
qed


subsection \<open>What an operation leaves alone\<close>

lemma bind_result_eq_Inl:
  "bind_result m f = Inl e \<longleftrightarrow> m = Inl e \<or> (\<exists>x. m = Inr x \<and> f x = Inl e)"
  by (cases m) simp_all

text \<open>The number of blocks allocated so far never goes down.\<close>

lemma allocated_prims:
  "inc_ref b h = Inr h' \<Longrightarrow> allocated h' = allocated h"
  "inc_wref b h = Inr h' \<Longrightarrow> allocated h' = allocated h"
  "dec_wref b h = Inr h' \<Longrightarrow> allocated h' = allocated h"
  by (auto simp: inc_ref_def inc_wref_def dec_wref_def Let_def split: option.splits if_splits)

lemma allocated_dec_ref: "dec_ref b h = Inr h' \<Longrightarrow> allocated h' = allocated h"
  by (erule dec_ref_Inr) (auto split: if_splits)

lemma allocated_values:
  "shared_ptr_copy sp h = Inr (v, h') \<Longrightarrow> allocated h' = allocated h"
  "shared_ptr_alias sp p h = Inr (v, h') \<Longrightarrow> allocated h' = allocated h"
  "shared_ptr_from_weak wp h = Inr (v, h') \<Longrightarrow> allocated h' = allocated h"
  "shared_ptr_dtor v h = Inr h' \<Longrightarrow> allocated h' = allocated h"
  "weak_ptr_copy wp h = Inr (w, h') \<Longrightarrow> allocated h' = allocated h"
  "weak_ptr_from_shared sp h = Inr (w, h') \<Longrightarrow> allocated h' = allocated h"
  "weak_ptr_dtor w h = Inr h' \<Longrightarrow> allocated h' = allocated h"
  by (auto simp: shared_ptr_copy_def shared_ptr_alias_def shared_ptr_from_weak_def
      shared_ptr_dtor_def weak_ptr_copy_def weak_ptr_from_shared_def weak_ptr_dtor_def
      Let_def bind_result_eq_Inr allocated_prims allocated_dec_ref split: if_splits)

lemma allocated_lock: "weak_ptr_lock wp h = Inr (v, h') \<Longrightarrow> allocated h' = allocated h"
  by (auto simp: weak_ptr_lock_def bind_result_eq_Inr allocated_values
      split: if_splits sum.splits)

lemma allocated_new:
  "shared_ptr_p p h = (v, h') \<Longrightarrow> allocated h' = Suc (allocated h)"
  "shared_ptr_p_d p d h = (v, h') \<Longrightarrow> allocated h' = Suc (allocated h)"
  "shared_ptr_nullptr_d d h = (v, h') \<Longrightarrow> allocated h' = Suc (allocated h)"
  by (auto simp: shared_ptr_p_def shared_ptr_p_d_def shared_ptr_nullptr_d_def
      new_control_block_def Let_def)

lemma step_allocated: "step x s = Inr s' \<Longrightarrow> allocated (hp s) \<le> allocated (hp s')"
  by (cases x)
    (auto simp: bind_result_eq_Inr new_shared_def new_weak_def Let_def
      allocated_values allocated_lock allocated_new
      shared_ptr_swap_def weak_ptr_swap_def shared_ptr_move_def
      split: prod.splits)

text \<open>
  The only error besides undefined behaviour is the \<open>bad_weak_ptr\<close> of \<open>shared_ptr(wp)\<close>,
  and the heap is untouched when it is thrown.
\<close>

lemma error_prims:
  "inc_ref b h = Inl (e, h') \<Longrightarrow> e = undefined_behaviour"
  "inc_wref b h = Inl (e, h') \<Longrightarrow> e = undefined_behaviour"
  "dec_wref b h = Inl (e, h') \<Longrightarrow> e = undefined_behaviour"
  "dec_ref b h = Inl (e, h') \<Longrightarrow> e = undefined_behaviour"
  "deref b h = Inl (e, h') \<Longrightarrow> e = undefined_behaviour"
  by (auto simp: inc_ref_def inc_wref_def dec_wref_def dec_ref_def deref_def Let_def
      split: option.splits if_splits)

lemma error_values:
  "shared_ptr_copy sp h = Inl (e, h') \<Longrightarrow> e = undefined_behaviour"
  "shared_ptr_alias sp p h = Inl (e, h') \<Longrightarrow> e = undefined_behaviour"
  "shared_ptr_dtor v h = Inl (e, h') \<Longrightarrow> e = undefined_behaviour"
  "weak_ptr_copy wp h = Inl (e, h') \<Longrightarrow> e = undefined_behaviour"
  "weak_ptr_from_shared sp h = Inl (e, h') \<Longrightarrow> e = undefined_behaviour"
  "weak_ptr_dtor w h = Inl (e, h') \<Longrightarrow> e = undefined_behaviour"
  "weak_ptr_expired wp h = Inl (e, h') \<Longrightarrow> e = undefined_behaviour"
  "sget s n = Inl (e, h') \<Longrightarrow> e = undefined_behaviour"
  "wget s n = Inl (e, h') \<Longrightarrow> e = undefined_behaviour"
  by (auto simp: shared_ptr_copy_def shared_ptr_alias_def
      shared_ptr_dtor_def weak_ptr_copy_def weak_ptr_from_shared_def weak_ptr_dtor_def
      weak_ptr_expired_def sget_def wget_def
      Let_def bind_result_eq_Inl dest: error_prims split: if_splits option.splits)

lemma error_from_weak:
  "shared_ptr_from_weak wp h = Inl (e, h') \<Longrightarrow>
   e = undefined_behaviour \<or> (e = bad_weak_ptr \<and> h' = h)"
  by (auto simp: shared_ptr_from_weak_def Let_def bind_result_eq_Inl
      dest: error_prims error_values split: if_splits)

lemma error_lock:
  "weak_ptr_lock wp h = Inl (e, h') \<Longrightarrow> e \<noteq> bad_weak_ptr"
  by (auto simp: weak_ptr_lock_def Let_def bind_result_eq_Inl
      dest: error_values error_from_weak split: if_splits sum.splits)

lemma step_bad_weak_ptr: "step x s = Inl (bad_weak_ptr, h) \<Longrightarrow> h = hp s"
  by (cases x)
    (auto simp: bind_result_eq_Inl Let_def
      shared_ptr_swap_def weak_ptr_swap_def shared_ptr_move_def
      dest: error_values error_from_weak error_lock
      split: prod.splits)

text \<open>
  One operation takes away at most one owner or at most one observer of a block, never
  one of each.
\<close>

lemma cnt_append [simp]: "cnt P (xs @ [x]) = cnt P xs + (if P x then 1 else 0)"
  by (simp add: cnt_def)

lemma cnt_update [simp]:
  "i < length xs \<Longrightarrow>
   cnt P (xs[i := y]) = cnt P xs - (if P (xs ! i) then 1 else 0) + (if P y then 1 else 0)"
  by (simp add: cnt_def count_update)

lemma live_cnt:
  "live_shared a s = cnt (shares a) (svars s)"
  "live_weak a s = cnt (observes a) (wvars s)"
  by (simp_all add: live_shared_def live_weak_def cnt_def)

lemma shares_simps [simp]:
  "shares a None = False"
  "shares a (Some v) = (sp_control_block v = a)"
  by (simp_all add: shares_def)

lemma observes_simps [simp]:
  "observes a None = False"
  "observes a (Some w) = (wp_control_block w = a)"
  by (simp_all add: observes_def)

lemma step_counts:
  "step x s = Inr s' \<Longrightarrow> a \<noteq> nullptr \<Longrightarrow>
   (live_shared a s - 1 \<le> live_shared a s' \<and> live_weak a s' = live_weak a s) \<or>
   (live_shared a s' = live_shared a s \<and> live_weak a s - 1 \<le> live_weak a s')"
  by (cases x)
    (auto simp: bind_result_eq_Inr Let_def live_cnt
      new_shared_def new_weak_def sget_Inr wget_Inr nth_list_update
      shared_ptr_swap_def weak_ptr_swap_def shared_ptr_move_def
      shared_ptr_default_def weak_ptr_default_def
      split: prod.splits if_splits)

text \<open>Events are only ever added, at the end.\<close>

lemma grows_refl [simp]: "grows h h"
  by (simp add: grows_def)

lemma grows_trans: "grows h h1 \<Longrightarrow> grows h1 h2 \<Longrightarrow> grows h h2"
  by (auto simp: grows_def)

lemma grows_prims:
  "inc_ref b h = Inr h' \<Longrightarrow> grows h h'"
  "inc_wref b h = Inr h' \<Longrightarrow> grows h h'"
  "dec_wref b h = Inr h' \<Longrightarrow> grows h h'"
  by (auto simp: grows_def inc_ref_def inc_wref_def dec_wref_def Let_def
      split: option.splits if_splits)

lemma grows_dec_ref: "dec_ref b h = Inr h' \<Longrightarrow> grows h h'"
  by (erule dec_ref_Inr) (auto simp: grows_def split: if_splits)

lemma grows_values:
  "shared_ptr_copy sp h = Inr (v, h') \<Longrightarrow> grows h h'"
  "shared_ptr_alias sp p h = Inr (v, h') \<Longrightarrow> grows h h'"
  "shared_ptr_from_weak wp h = Inr (v, h') \<Longrightarrow> grows h h'"
  "shared_ptr_dtor v h = Inr h' \<Longrightarrow> grows h h'"
  "weak_ptr_copy wp h = Inr (w, h') \<Longrightarrow> grows h h'"
  "weak_ptr_from_shared sp h = Inr (w, h') \<Longrightarrow> grows h h'"
  "weak_ptr_dtor w h = Inr h' \<Longrightarrow> grows h h'"
  by (auto simp: shared_ptr_copy_def shared_ptr_alias_def shared_ptr_from_weak_def
      shared_ptr_dtor_def weak_ptr_copy_def weak_ptr_from_shared_def weak_ptr_dtor_def
      Let_def bind_result_eq_Inr grows_prims grows_dec_ref split: if_splits)

lemma grows_lock: "weak_ptr_lock wp h = Inr (v, h') \<Longrightarrow> grows h h'"
  by (auto simp: weak_ptr_lock_def bind_result_eq_Inr grows_values
      split: if_splits sum.splits)

lemma grows_new:
  "shared_ptr_p p h = (v, h') \<Longrightarrow> grows h h'"
  "shared_ptr_p_d p d h = (v, h') \<Longrightarrow> grows h h'"
  "shared_ptr_nullptr_d d h = (v, h') \<Longrightarrow> grows h h'"
  by (auto simp: shared_ptr_p_def shared_ptr_p_d_def shared_ptr_nullptr_d_def
      new_control_block_def Let_def grows_def)

lemmas grows_steps =
  grows_values [unfolded grows_def] grows_lock [unfolded grows_def]
  grows_new [unfolded grows_def]

lemma step_grows: "step x s = Inr s' \<Longrightarrow> grows (hp s) (hp s')"
  by (cases x)
    (auto simp: bind_result_eq_Inr new_shared_def new_weak_def Let_def grows_def
      shared_ptr_swap_def weak_ptr_swap_def shared_ptr_move_def
      dest!: grows_steps
      split: prod.splits)


subsection \<open>Programs\<close>

text \<open>
  A program keeps \<open>tracked\<close> for an address that is allocated, and every address is
  tracked, for some stored pointer and deleter, in every state a program reaches from the
  initial state.
\<close>

lemma state_hp_same [simp]: "s\<lparr>hp := hp s\<rparr> = s"
  by simp

lemma run_tracked:
  "run xs s = Inr s' \<Longrightarrow> tracked a i (hp s) (live_shared a s) (live_weak a s) \<Longrightarrow>
   a \<le> allocated (hp s) \<Longrightarrow>
   tracked a i (hp s') (live_shared a s') (live_weak a s') \<and> a \<le> allocated (hp s')"
proof (induction xs arbitrary: s)
  case Nil
  then show ?case by simp
next
  case (Cons x xs)
  show ?case
  proof (cases "step x s")
    case (Inl eh)
    obtain e h where eh: "eh = (e, h)" by (cases eh)
    with Inl Cons.prems(1) have e: "e = bad_weak_ptr" and r: "run xs (s\<lparr>hp := h\<rparr>) = Inr s'"
      by (auto split: if_splits)
    from Inl eh e have "h = hp s" by (simp add: step_bad_weak_ptr)
    with r have "run xs s = Inr s'" by simp
    from Cons.IH [OF this Cons.prems(2,3)] show ?thesis .
  next
    case (Inr s1)
    with Cons.prems(1) have r: "run xs s1 = Inr s'" by simp
    have "tracked a i (hp s1) (live_shared a s1) (live_weak a s1)"
      using Cons.prems(2) Inr
    proof (rule step_tracked)
      fix i' assume "a = Suc (allocated (hp s))"
      with Cons.prems(3) show "i' = i" by simp
    qed
    moreover have "a \<le> allocated (hp s1)"
      using step_allocated [OF Inr] Cons.prems(3) by simp
    ultimately show ?thesis using Cons.IH [OF r] by simp
  qed
qed

lemma tracked_unused:
  "tracked a i h ns nw \<Longrightarrow> allocated h < a \<Longrightarrow> tracked a i' h ns nw"
  by (simp add: tracked_def)

lemma step_known:
  assumes "tracked a i (hp s) (live_shared a s) (live_weak a s)" and S: "step x s = Inr s'"
  shows "\<exists>i'. tracked a i' (hp s') (live_shared a s') (live_weak a s')"
proof (cases "allocated (hp s) < a")
  case False
  have "tracked a i (hp s') (live_shared a s') (live_weak a s')"
    using assms(1) S
  proof (rule step_tracked)
    fix i' assume "a = Suc (allocated (hp s))"
    with False show "i' = i" by simp
  qed
  then show ?thesis ..
next
  case True
  show ?thesis
  proof (cases "creates x")
    case None
    have "tracked a i (hp s') (live_shared a s') (live_weak a s')"
      using assms(1) S by (rule step_tracked) (simp add: None)
    then show ?thesis ..
  next
    case (Some j)
    from assms(1) True have "tracked a j (hp s) (live_shared a s) (live_weak a s)"
      by (rule tracked_unused)
    then have "tracked a j (hp s') (live_shared a s') (live_weak a s')"
      using S by (rule step_tracked) (simp add: Some)
    then show ?thesis ..
  qed
qed

lemma run_known:
  "run xs s = Inr s' \<Longrightarrow> \<exists>i. tracked a i (hp s) (live_shared a s) (live_weak a s) \<Longrightarrow>
   \<exists>i. tracked a i (hp s') (live_shared a s') (live_weak a s')"
proof (induction xs arbitrary: s)
  case Nil
  then show ?case by simp
next
  case (Cons x xs)
  show ?case
  proof (cases "step x s")
    case (Inl eh)
    obtain e h where eh: "eh = (e, h)" by (cases eh)
    with Inl Cons.prems(1) have e: "e = bad_weak_ptr" and r: "run xs (s\<lparr>hp := h\<rparr>) = Inr s'"
      by (auto split: if_splits)
    from Inl eh e have "h = hp s" by (simp add: step_bad_weak_ptr)
    with r have "run xs s = Inr s'" by simp
    from Cons.IH [OF this Cons.prems(2)] show ?thesis .
  next
    case (Inr s1)
    with Cons.prems(1) have r: "run xs s1 = Inr s'" by simp
    from Cons.prems(2) obtain i where "tracked a i (hp s) (live_shared a s) (live_weak a s)" ..
    then have "\<exists>i'. tracked a i' (hp s1) (live_shared a s1) (live_weak a s1)"
      using Inr by (rule step_known)
    with Cons.IH [OF r] show ?thesis .
  qed
qed

lemma init_tracked:
  "a \<noteq> nullptr \<Longrightarrow>
   tracked a i (hp init_state) (live_shared a init_state) (live_weak a init_state)"
  by (simp add: tracked_def init_state_def empty_heap_def live_shared_def live_weak_def
      events_of_def)

text \<open>The invariant of a block that is live in a reachable state, from then on.\<close>

lemma reachable_tracked:
  assumes r1: "run xs init_state = Inr s1" and cb: "block_at (hp s1) a = Some cb"
    and r2: "run ys s1 = Inr s"
  shows "tracked a (impl cb) (hp s) (live_shared a s) (live_weak a s)"
proof -
  from cb have nn: "a \<noteq> nullptr" and live: "blocks (hp s1) a = Some cb"
    by (auto simp: block_at_def split: if_splits)
  from run_known [OF r1] init_tracked [OF nn]
  obtain i where t: "tracked a i (hp s1) (live_shared a s1) (live_weak a s1)" by blast
  with live have "i = impl cb" and "a \<le> allocated (hp s1)"
    by (auto simp: tracked_def split: if_splits)
  with run_tracked [OF r2] t show ?thesis by simp
qed


lemma deleter_calls_events_of:
  "deleter_calls a h =
   filter (\<lambda>e. case e of Deleter_call b d p \<Rightarrow> True | Block_freed b \<Rightarrow> False) (events_of a h)"
  unfolding deleter_calls_def events_of_def filter_filter
  by (rule filter_cong) (auto split: event.splits)

lemma block_frees_events_of:
  "block_frees a h = filter (\<lambda>e. e = Block_freed a) (events_of a h)"
  unfolding block_frees_def events_of_def filter_filter
  by (rule filter_cong) auto

lemma grows_deleter_calls:
  "grows h h' \<Longrightarrow> \<exists>es. deleter_calls a h' = deleter_calls a h @ es"
  by (auto simp: grows_def deleter_calls_def)

lemma grows_block_frees:
  "grows h h' \<Longrightarrow> \<exists>es. block_frees a h' = block_frees a h @ es"
  by (auto simp: grows_def block_frees_def)

lemma run_append:
  "run xs s = Inr s1 \<Longrightarrow> run (xs @ ys) s = run ys s1"
proof (induction xs arbitrary: s)
  case Nil
  then show ?case by simp
next
  case (Cons x xs)
  then show ?case
    by (cases "step x s") (auto split: if_splits)
qed

lemma reachable_allocated:
  assumes r1: "run xs init_state = Inr s1" and cb: "block_at (hp s1) a = Some cb"
    and r2: "run ys s1 = Inr s"
  shows "a \<le> allocated (hp s)"
proof -
  from cb have nn: "a \<noteq> nullptr" and live: "blocks (hp s1) a = Some cb"
    by (auto simp: block_at_def split: if_splits)
  from run_known [OF r1] init_tracked [OF nn]
  obtain i where t: "tracked a i (hp s1) (live_shared a s1) (live_weak a s1)" by blast
  with live have "a \<le> allocated (hp s1)"
    by (auto simp: tracked_def split: if_splits)
  with run_tracked [OF r2 t] show ?thesis by simp
qed

lemma reachable_step_tracked:
  assumes r1: "run xs init_state = Inr s1" and cb: "block_at (hp s1) a = Some cb"
    and r2: "run ys s1 = Inr s" and S: "step x s = Inr s'"
  shows "tracked a (impl cb) (hp s') (live_shared a s') (live_weak a s')"
  using reachable_tracked [OF r1 cb r2] S
proof (rule step_tracked)
  fix i' assume "a = Suc (allocated (hp s))"
  with reachable_allocated [OF r1 cb r2] show "i' = impl cb" by simp
qed

lemma tracked_events:
  assumes "tracked a i h ns nw"
  shows "events_of a h =
         (case blocks h a of
            Some cb \<Rightarrow> if 0 < ns then [] else destroy_events a i
          | None \<Rightarrow> if allocated h < a then [] else destroy_events a i @ [Block_freed a])"
  using assms by (auto simp: tracked_def split: option.splits if_splits)

lemma tracked_deleter_calls:
  assumes "tracked a i h ns nw" and "a \<le> allocated h"
  shows "deleter_calls a h = (if 0 < ns then [] else destroy_events a i)"
  using assms
  by (auto simp: deleter_calls_events_of tracked_def destroy_events_def
      split: option.splits if_splits)

lemma tracked_block_frees:
  assumes "tracked a i h ns nw" and "a \<le> allocated h"
  shows "block_frees a h = (if block_at h a = None then [Block_freed a] else [])"
  using assms
  by (auto simp: block_frees_events_of tracked_def destroy_events_def block_at_def
      split: option.splits if_splits)

lemma tracked_use_count:
  assumes "tracked a i h ns nw" and "0 < ns \<or> 0 < nw"
  shows "\<exists>cb. block_at h a = Some cb \<and> use_count_field cb = ns \<and>
              weak_use_count_field cb = nw + (if 0 < ns then 1 else 0)"
  using assms by (auto simp: tracked_def block_at_def split: option.splits if_splits)

lemma tracked_dead:
  assumes "tracked a i h ns nw" and "a \<le> allocated h" and "block_at h a = None"
  shows "ns = 0 \<and> nw = 0 \<and> events_of a h = destroy_events a i @ [Block_freed a]"
  using assms by (auto simp: tracked_def block_at_def split: option.splits if_splits)

subsection \<open>Promotion from a weak\_ptr that holds a control block\<close>

text \<open>
  For a \<open>weak_ptr\<close> that holds an allocated control block, \<open>shared_ptr(wp)\<close> throws and
  leaves the heap as it is when the strong counter is 0, and otherwise gives a
  \<open>shared_ptr\<close> with the fields of \<open>wp\<close> and increments the strong counter; \<open>lock()\<close>
  gives an empty \<open>shared_ptr\<close> in the first case and the same as the constructor in the
  second.
\<close>

lemma shared_ptr_from_weak_result:
  assumes "block_at h (wp_control_block wp) = Some cb"
  shows "shared_ptr_from_weak wp h =
           (if use_count_field cb = 0 then Inl (bad_weak_ptr, h)
            else Inr (\<lparr>sp_ptr = wp_ptr wp, sp_control_block = wp_control_block wp\<rparr>,
                      h\<lparr>blocks := (blocks h)(wp_control_block wp \<mapsto>
                           cb\<lparr>use_count_field := use_count_field cb + 1\<rparr>)\<rparr>))"
proof -
  from assms have nn: "wp_control_block wp \<noteq> nullptr"
    by (auto simp: block_at_def split: if_splits)
  with assms have "weak_ptr_expired wp h = Inr (use_count_field cb = 0)"
    by (simp add: weak_ptr_expired_def deref_def control_block_expired_def)
  with assms show ?thesis
    by (simp add: shared_ptr_from_weak_def inc_ref_def Let_def)
qed

lemma lock_bound_weak_ptr:
  assumes "block_at h (wp_control_block wp) = Some cb"
  shows "weak_ptr_lock wp h =
           (if use_count_field cb = 0 then Inr (shared_ptr_default, h)
            else Inr (\<lparr>sp_ptr = wp_ptr wp, sp_control_block = wp_control_block wp\<rparr>,
                      h\<lparr>blocks := (blocks h)(wp_control_block wp \<mapsto>
                           cb\<lparr>use_count_field := use_count_field cb + 1\<rparr>)\<rparr>))"
proof -
  from assms have nn: "wp_control_block wp \<noteq> nullptr"
    by (auto simp: block_at_def split: if_splits)
  with assms have "weak_ptr_expired wp h = Inr (use_count_field cb = 0)"
    by (simp add: weak_ptr_expired_def deref_def control_block_expired_def)
  with shared_ptr_from_weak_result [OF assms] show ?thesis
    by (simp add: weak_ptr_lock_def)
qed

text \<open>
  When the other thread does nothing, the interleaved constructor and the interleaved
  \<open>lock()\<close> are the constructor and \<open>lock()\<close>.
\<close>

lemma shared_ptr_from_weak_interleaved_alone:
  "shared_ptr_from_weak_interleaved wp Inr h = shared_ptr_from_weak wp h"
  by (simp add: shared_ptr_from_weak_interleaved_def shared_ptr_from_weak_def cong: if_cong)

lemma weak_ptr_lock_interleaved_alone:
  "weak_ptr_lock_interleaved wp Inr h = weak_ptr_lock wp h"
  by (simp add: weak_ptr_lock_interleaved_def weak_ptr_lock_def
      shared_ptr_from_weak_interleaved_alone cong: if_cong)

subsection \<open>Legal operations do not go wrong\<close>

lemma reachable_no_dangling:
  assumes "run xs init_state = Inr s"
  shows "no_dangling s"
proof -
  have known: "\<exists>i. tracked a i (hp s) (live_shared a s) (live_weak a s)" if "a \<noteq> nullptr" for a
    using run_known [OF assms] init_tracked [OF that] by blast
  have A: "block_at (hp s) (sp_control_block v) \<noteq> None"
    if g: "sget s n = Inr v" and nn: "sp_control_block v \<noteq> nullptr" for n v
  proof -
    from known [OF nn] obtain i where
      t: "tracked (sp_control_block v) i (hp s)
            (live_shared (sp_control_block v) s) (live_weak (sp_control_block v) s)" ..
    from g have "0 < live_shared (sp_control_block v) s" by (rule live_shared_pos) simp
    with tracked_use_count [OF t] show ?thesis by auto
  qed
  have B: "block_at (hp s) (wp_control_block w) \<noteq> None"
    if g: "wget s k = Inr w" and nn: "wp_control_block w \<noteq> nullptr" for k w
  proof -
    from known [OF nn] obtain i where
      t: "tracked (wp_control_block w) i (hp s)
            (live_shared (wp_control_block w) s) (live_weak (wp_control_block w) s)" ..
    from g have "0 < live_weak (wp_control_block w) s" by (rule live_weak_pos) simp
    with tracked_use_count [OF t] show ?thesis by auto
  qed
  from A B show ?thesis unfolding no_dangling_def by blast
qed

lemma inc_ref_succeeds:
  "block_at h b = Some cb \<Longrightarrow>
   \<exists>h'. inc_ref b h = Inr h' \<and> (\<forall>c. block_at h c \<noteq> None \<longrightarrow> block_at h' c \<noteq> None)"
  by (auto simp: inc_ref_def block_at_def)

lemma inc_wref_succeeds:
  "block_at h b = Some cb \<Longrightarrow>
   \<exists>h'. inc_wref b h = Inr h' \<and> (\<forall>c. block_at h c \<noteq> None \<longrightarrow> block_at h' c \<noteq> None)"
  by (auto simp: inc_wref_def block_at_def)

lemma dec_wref_succeeds: "block_at h b = Some cb \<Longrightarrow> \<exists>h'. dec_wref b h = Inr h'"
  by (auto simp: dec_wref_def Let_def)

lemma dec_ref_succeeds: "block_at h b = Some cb \<Longrightarrow> \<exists>h'. dec_ref b h = Inr h'"
  by (auto simp: dec_ref_def dec_wref_def block_at_def Let_def)

lemma copy_succeeds:
  "sp_control_block sp \<noteq> nullptr \<longrightarrow> block_at h (sp_control_block sp) \<noteq> None \<Longrightarrow>
   \<exists>v h'. shared_ptr_copy sp h = Inr (v, h') \<and>
     (\<forall>c. block_at h c \<noteq> None \<longrightarrow> block_at h' c \<noteq> None)"
  using inc_ref_succeeds [of h "sp_control_block sp"]
  by (auto simp: shared_ptr_copy_def Let_def)

lemma alias_succeeds:
  "sp_control_block sp \<noteq> nullptr \<longrightarrow> block_at h (sp_control_block sp) \<noteq> None \<Longrightarrow>
   \<exists>v h'. shared_ptr_alias sp p h = Inr (v, h')"
  using inc_ref_succeeds [of h "sp_control_block sp"]
  by (auto simp: shared_ptr_alias_def Let_def)

lemma dtor_succeeds:
  "sp_control_block sp \<noteq> nullptr \<longrightarrow> block_at h (sp_control_block sp) \<noteq> None \<Longrightarrow>
   \<exists>h'. shared_ptr_dtor sp h = Inr h'"
  using dec_ref_succeeds [of h "sp_control_block sp"]
  by (auto simp: shared_ptr_dtor_def)

lemma weak_copy_succeeds:
  "wp_control_block wp \<noteq> nullptr \<longrightarrow> block_at h (wp_control_block wp) \<noteq> None \<Longrightarrow>
   \<exists>w h'. weak_ptr_copy wp h = Inr (w, h') \<and>
     (\<forall>c. block_at h c \<noteq> None \<longrightarrow> block_at h' c \<noteq> None)"
  using inc_wref_succeeds [of h "wp_control_block wp"]
  by (auto simp: weak_ptr_copy_def Let_def)

lemma weak_from_shared_succeeds:
  "sp_control_block sp \<noteq> nullptr \<longrightarrow> block_at h (sp_control_block sp) \<noteq> None \<Longrightarrow>
   \<exists>w h'. weak_ptr_from_shared sp h = Inr (w, h') \<and>
     (\<forall>c. block_at h c \<noteq> None \<longrightarrow> block_at h' c \<noteq> None)"
  using inc_wref_succeeds [of h "sp_control_block sp"]
  by (auto simp: weak_ptr_from_shared_def Let_def)

lemma weak_dtor_succeeds:
  "wp_control_block w \<noteq> nullptr \<longrightarrow> block_at h (wp_control_block w) \<noteq> None \<Longrightarrow>
   \<exists>h'. weak_ptr_dtor w h = Inr h'"
  using dec_wref_succeeds [of h "wp_control_block w"]
  by (auto simp: weak_ptr_dtor_def)

lemma from_weak_succeeds:
  "block_at h (wp_control_block wp) = Some cb \<Longrightarrow>
   (\<exists>v h'. shared_ptr_from_weak wp h = Inr (v, h')) \<or>
   shared_ptr_from_weak wp h = Inl (bad_weak_ptr, h)"
  by (simp add: shared_ptr_from_weak_result)

lemma lock_succeeds:
  "block_at h (wp_control_block wp) = Some cb \<Longrightarrow> \<exists>v h'. weak_ptr_lock wp h = Inr (v, h')"
  by (simp add: lock_bound_weak_ptr)

lemma nd_s:
  "no_dangling s \<Longrightarrow> sget s n = Inr v \<Longrightarrow>
   sp_control_block v \<noteq> nullptr \<longrightarrow> block_at (hp s) (sp_control_block v) \<noteq> None"
  by (simp add: no_dangling_def)

lemma nd_w:
  "no_dangling s \<Longrightarrow> wget s k = Inr w \<Longrightarrow>
   wp_control_block w \<noteq> nullptr \<longrightarrow> block_at (hp s) (wp_control_block w) \<noteq> None"
  by (simp add: no_dangling_def)

lemma live_sE: "live_s s n \<Longrightarrow> (\<And>v. sget s n = Inr v \<Longrightarrow> P) \<Longrightarrow> P"
  by (auto simp: live_s_def split: sum.splits)

lemma live_wE: "live_w s k \<Longrightarrow> (\<And>w. wget s k = Inr w \<Longrightarrow> P) \<Longrightarrow> P"
  by (auto simp: live_w_def split: sum.splits)

lemma bound_wE:
  "bound_w s k \<Longrightarrow> (\<And>w. wget s k = Inr w \<Longrightarrow> wp_control_block w \<noteq> nullptr \<Longrightarrow> P) \<Longrightarrow> P"
  by (auto simp: bound_w_def split: sum.splits)

lemma new_keeps:
  "shared_ptr_p p h = (v, h') \<Longrightarrow> block_at h c \<noteq> None \<Longrightarrow> block_at h' c \<noteq> None"
  "shared_ptr_p_d p d h = (v, h') \<Longrightarrow> block_at h c \<noteq> None \<Longrightarrow> block_at h' c \<noteq> None"
  by (auto simp: shared_ptr_p_def shared_ptr_p_d_def new_control_block_def Let_def block_at_def
      split: if_splits)

lemma step_progress:
  assumes nd: "no_dangling s" and lg: "legal x s"
  shows "(\<exists>s'. step x s = Inr s') \<or>
         (\<exists>k. x = S_from_weak k \<and> step x s = Inl (bad_weak_ptr, hp s))"
proof (cases x)
  case S_default
  then show ?thesis by simp
next
  case (S_p p)
  then show ?thesis by (simp split: prod.splits)
next
  case (S_p_d p d)
  then show ?thesis by (simp split: prod.splits)
next
  case (S_nullptr_d d)
  then show ?thesis by (simp split: prod.splits)
next
  case (S_alias j p)
  with lg obtain sp where g: "sget s j = Inr sp" by (auto elim: live_sE)
  from alias_succeeds [OF nd_s [OF nd g], of p] g S_alias show ?thesis by auto
next
  case (S_copy j)
  with lg obtain sp where g: "sget s j = Inr sp" by (auto elim: live_sE)
  from copy_succeeds [OF nd_s [OF nd g]] g S_copy show ?thesis by auto
next
  case (S_move j)
  with lg obtain sp where g: "sget s j = Inr sp" by (auto elim: live_sE)
  with S_move show ?thesis by (simp add: shared_ptr_move_def)
next
  case (S_from_weak k)
  with lg obtain w where g: "wget s k = Inr w" and nn: "wp_control_block w \<noteq> nullptr"
    by (auto elim: bound_wE)
  from nd_w [OF nd g] nn obtain cb where "block_at (hp s) (wp_control_block w) = Some cb"
    by auto
  from from_weak_succeeds [OF this] g S_from_weak show ?thesis by auto
next
  case (S_dtor n)
  with lg obtain this where g: "sget s n = Inr this" by (auto elim: live_sE)
  from dtor_succeeds [OF nd_s [OF nd g]] g S_dtor show ?thesis by auto
next
  case (S_assign n m)
  with lg obtain this sp where gn: "sget s n = Inr this" and gm: "sget s m = Inr sp"
    by (auto elim!: live_sE)
  from copy_succeeds [OF nd_s [OF nd gm]] obtain tmp h1 where
    c: "shared_ptr_copy sp (hp s) = Inr (tmp, h1)"
    and k: "\<forall>c. block_at (hp s) c \<noteq> None \<longrightarrow> block_at h1 c \<noteq> None" by blast
  from nd_s [OF nd gn] k
  have "sp_control_block this \<noteq> nullptr \<longrightarrow> block_at h1 (sp_control_block this) \<noteq> None"
    by blast
  from dtor_succeeds [of "\<lparr>sp_ptr = sp_ptr this, sp_control_block = sp_control_block this\<rparr>" h1]
    this c gn gm S_assign
  show ?thesis by (auto simp: shared_ptr_swap_def)
next
  case (S_move_assign n m)
  with lg obtain this sp where gn: "sget s n = Inr this" and gm: "sget s m = Inr sp"
    by (auto elim!: live_sE)
  define s1 where "s1 = s\<lparr>svars := (svars s)[m := Some shared_ptr_default]\<rparr>"
  obtain this1 where g1: "sget s1 n = Inr this1"
    and t1: "this1 = this \<or> this1 = shared_ptr_default"
    using gn gm by (cases "n = m") (auto simp: sget_def s1_def split: if_splits option.splits)
  from t1 nd_s [OF nd gn]
  have "sp_control_block this1 \<noteq> nullptr \<longrightarrow>
        block_at (hp s) (sp_control_block this1) \<noteq> None"
    by (auto simp: shared_ptr_default_def)
  from dtor_succeeds
    [of "\<lparr>sp_ptr = sp_ptr this1, sp_control_block = sp_control_block this1\<rparr>" "hp s"]
    this g1 gm S_move_assign
  show ?thesis
    by (auto simp: shared_ptr_swap_def shared_ptr_move_def s1_def shared_ptr_default_def Let_def)
next
  case (S_swap n m)
  with lg obtain this sp where gn: "sget s n = Inr this" and gm: "sget s m = Inr sp"
    by (auto elim!: live_sE)
  with S_swap show ?thesis by (simp add: shared_ptr_swap_def)
next
  case (S_reset n)
  with lg obtain this where g: "sget s n = Inr this" by (auto elim: live_sE)
  from dtor_succeeds
    [of "\<lparr>sp_ptr = sp_ptr this, sp_control_block = sp_control_block this\<rparr>" "hp s"]
    nd_s [OF nd g] g S_reset
  show ?thesis by (auto simp: shared_ptr_swap_def)
next
  case (S_reset_p n p)
  with lg obtain this where g: "sget s n = Inr this" by (auto elim: live_sE)
  obtain tmp h1 where c: "shared_ptr_p p (hp s) = (tmp, h1)" by (cases "shared_ptr_p p (hp s)")
  from nd_s [OF nd g] new_keeps(1) [OF c]
  have "sp_control_block this \<noteq> nullptr \<longrightarrow> block_at h1 (sp_control_block this) \<noteq> None"
    by blast
  from dtor_succeeds [of "\<lparr>sp_ptr = sp_ptr this, sp_control_block = sp_control_block this\<rparr>" h1]
    this c g S_reset_p
  show ?thesis by (auto simp: shared_ptr_swap_def)
next
  case (S_reset_p_d n p d)
  with lg obtain this where g: "sget s n = Inr this" by (auto elim: live_sE)
  obtain tmp h1 where c: "shared_ptr_p_d p d (hp s) = (tmp, h1)"
    by (cases "shared_ptr_p_d p d (hp s)")
  from nd_s [OF nd g] new_keeps(2) [OF c]
  have "sp_control_block this \<noteq> nullptr \<longrightarrow> block_at h1 (sp_control_block this) \<noteq> None"
    by blast
  from dtor_succeeds [of "\<lparr>sp_ptr = sp_ptr this, sp_control_block = sp_control_block this\<rparr>" h1]
    this c g S_reset_p_d
  show ?thesis by (auto simp: shared_ptr_swap_def)
next
  case W_default
  then show ?thesis by simp
next
  case (W_from_shared m)
  with lg obtain sp where g: "sget s m = Inr sp" by (auto elim: live_sE)
  from weak_from_shared_succeeds [OF nd_s [OF nd g]] g W_from_shared show ?thesis by auto
next
  case (W_copy k)
  with lg obtain wp where g: "wget s k = Inr wp" by (auto elim: live_wE)
  from weak_copy_succeeds [OF nd_w [OF nd g]] g W_copy show ?thesis by auto
next
  case (W_dtor k)
  with lg obtain this where g: "wget s k = Inr this" by (auto elim: live_wE)
  from weak_dtor_succeeds [OF nd_w [OF nd g]] g W_dtor show ?thesis by auto
next
  case (W_assign k k')
  with lg obtain this wp where gk: "wget s k = Inr this" and gk': "wget s k' = Inr wp"
    by (auto elim!: live_wE)
  from weak_copy_succeeds [OF nd_w [OF nd gk']] obtain tmp h1 where
    c: "weak_ptr_copy wp (hp s) = Inr (tmp, h1)"
    and kp: "\<forall>c. block_at (hp s) c \<noteq> None \<longrightarrow> block_at h1 c \<noteq> None" by blast
  from nd_w [OF nd gk] kp
  have "wp_control_block this \<noteq> nullptr \<longrightarrow> block_at h1 (wp_control_block this) \<noteq> None"
    by blast
  from weak_dtor_succeeds
    [of "\<lparr>wp_ptr = wp_ptr this, wp_control_block = wp_control_block this\<rparr>" h1]
    this c gk gk' W_assign
  show ?thesis by (auto simp: weak_ptr_swap_def)
next
  case (W_assign_shared k m)
  with lg obtain this sp where gk: "wget s k = Inr this" and gm: "sget s m = Inr sp"
    by (auto elim!: live_wE live_sE)
  from weak_from_shared_succeeds [OF nd_s [OF nd gm]] obtain tmp h1 where
    c: "weak_ptr_from_shared sp (hp s) = Inr (tmp, h1)"
    and kp: "\<forall>c. block_at (hp s) c \<noteq> None \<longrightarrow> block_at h1 c \<noteq> None" by blast
  from nd_w [OF nd gk] kp
  have "wp_control_block this \<noteq> nullptr \<longrightarrow> block_at h1 (wp_control_block this) \<noteq> None"
    by blast
  from weak_dtor_succeeds
    [of "\<lparr>wp_ptr = wp_ptr this, wp_control_block = wp_control_block this\<rparr>" h1]
    this c gk gm W_assign_shared
  show ?thesis by (auto simp: weak_ptr_swap_def)
next
  case (W_swap k k')
  with lg obtain this wp where gk: "wget s k = Inr this" and gk': "wget s k' = Inr wp"
    by (auto elim!: live_wE)
  with W_swap show ?thesis by (simp add: weak_ptr_swap_def)
next
  case (W_reset k)
  with lg obtain this where g: "wget s k = Inr this" by (auto elim: live_wE)
  from weak_dtor_succeeds
    [of "\<lparr>wp_ptr = wp_ptr this, wp_control_block = wp_control_block this\<rparr>" "hp s"]
    nd_w [OF nd g] g W_reset
  show ?thesis by (auto simp: weak_ptr_swap_def)
next
  case (W_lock k)
  with lg obtain w where g: "wget s k = Inr w" and nn: "wp_control_block w \<noteq> nullptr"
    by (auto elim: bound_wE)
  from nd_w [OF nd g] nn obtain cb where "block_at (hp s) (wp_control_block w) = Some cb"
    by auto
  from lock_succeeds [OF this] g W_lock show ?thesis by auto
qed

lemma legal_run_from:
  "run ys init_state = Inr s \<Longrightarrow> legal_run xs s \<Longrightarrow> \<exists>s'. run xs s = Inr s'"
proof (induction xs arbitrary: ys s)
  case Nil
  then show ?case by simp
next
  case (Cons x xs)
  from Cons.prems(2) have lg: "legal x s" by simp
  from step_progress [OF reachable_no_dangling [OF Cons.prems(1)] lg]
  show ?case
  proof
    assume "\<exists>s'. step x s = Inr s'"
    then obtain s1 where S: "step x s = Inr s1" ..
    with Cons.prems(2) have l: "legal_run xs s1" by simp
    have "run (ys @ [x]) init_state = Inr s1"
      using run_append [OF Cons.prems(1), of "[x]"] S by simp
    from Cons.IH [OF this l] S show ?thesis by simp
  next
    assume "\<exists>k. x = S_from_weak k \<and> step x s = Inl (bad_weak_ptr, hp s)"
    then have S: "step x s = Inl (bad_weak_ptr, hp s)" by blast
    with Cons.prems(2) have l: "legal_run xs s" by simp
    from Cons.IH [OF Cons.prems(1) l] S show ?thesis by simp
  qed
qed

text \<open>
  A legal program runs to its end: none of its operations is undefined, and \<open>lock()\<close>
  never calls \<open>std::terminate\<close>. So the results below on programs that run speak of
  every program that uses its objects within their lifetime and promotes no empty
  \<open>weak_ptr\<close>.
\<close>

theorem legal_programs_run: "legal_run xs init_state \<Longrightarrow> \<exists>s. run xs init_state = Inr s"
  using legal_run_from [of "[]" init_state xs] by simp

text \<open>The definitions a concrete program is evaluated with.\<close>

lemmas model_defs =
  init_state_def empty_heap_def new_shared_def new_weak_def sget_def wget_def
  shared_ptr_default_def shared_ptr_p_def shared_ptr_p_d_def shared_ptr_nullptr_d_def
  shared_ptr_alias_def shared_ptr_copy_def shared_ptr_move_def shared_ptr_from_weak_def
  shared_ptr_dtor_def shared_ptr_swap_def shared_ptr_get_def shared_ptr_use_count_def
  shared_ptr_bool_def weak_ptr_default_def weak_ptr_from_shared_def weak_ptr_copy_def
  weak_ptr_dtor_def weak_ptr_swap_def weak_ptr_use_count_def weak_ptr_expired_def
  weak_ptr_lock_def new_control_block_def control_block_p_def control_block_p_d_def
  Ptr_p_def Ptr_p_d_def inc_ref_def inc_wref_def dec_ref_def dec_wref_def deref_def
  block_at_def control_block_use_count_def control_block_expired_def
  live_shared_def live_weak_def shares_def observes_def
  deleter_calls_def block_frees_def events_of_def Let_def

section \<open>Properties of the smart pointers\<close>

subsection \<open>Counting owners and observers along a program\<close>

text \<open>
  C1. Take any program, and any control block that is allocated at some point of it and
  manages an object (its stored pointer \<open>p\<close> is not null; \<open>d\<close> is its deleter). At every
  later point of the program:
  \<^item> \<open>use_count()\<close> of every live \<open>shared_ptr\<close> that holds the block, and of every live
    \<open>weak_ptr\<close> that holds it, is the number of live \<open>shared_ptr\<close> objects that hold it;
  \<^item> the deleter has been called on \<open>p\<close> exactly once if no live \<open>shared_ptr\<close> holds the
    block any more, and not at all otherwise;
  \<^item> an operation adds a call of the deleter exactly when it takes the number of owners
    from 1 to 0.
  The operations are those of \<open>shared_ptr\<close> and of \<open>weak_ptr\<close>. A program that runs is
  one that meets no undefined behaviour; every legal program runs (\<open>legal_programs_run\<close>).
\<close>

theorem use_count_counts_live_owners:
  assumes r1: "run xs init_state = Inr s1"
    and cb: "block_at (hp s1) a = Some cb"
    and i: "impl cb = \<lparr>impl_ptr = p, impl_deleter = d\<rparr>" and p: "p \<noteq> nullptr"
    and r2: "run ys s1 = Inr s"
  shows "(\<forall>n v. sget s n = Inr v \<and> sp_control_block v = a \<longrightarrow>
            shared_ptr_use_count v (hp s) = Inr (live_shared a s)) \<and>
         (\<forall>k w. wget s k = Inr w \<and> wp_control_block w = a \<longrightarrow>
            weak_ptr_use_count w (hp s) = Inr (live_shared a s)) \<and>
         deleter_calls a (hp s) = (if 0 < live_shared a s then [] else [Deleter_call a d p]) \<and>
         (\<forall>x s'. step x s = Inr s' \<longrightarrow>
            (deleter_calls a (hp s') \<noteq> deleter_calls a (hp s)) =
            (live_shared a s = 1 \<and> live_shared a s' = 0))"
proof -
  note t = reachable_tracked [OF r1 cb r2]
  note al = reachable_allocated [OF r1 cb r2]
  have nn: "a \<noteq> nullptr" using t by (rule tracked_nonnull)
  have de: "destroy_events a (impl cb) = [Deleter_call a d p]"
    using i p by (simp add: destroy_events_def)
  have A: "shared_ptr_use_count v (hp s) = Inr (live_shared a s)"
    if "sget s n = Inr v" and "sp_control_block v = a" for n v
  proof -
    from that have "0 < live_shared a s" by (rule live_shared_pos)
    with tracked_use_count [OF t] that(2) nn show ?thesis
      by (auto simp: shared_ptr_use_count_def deref_def control_block_use_count_def)
  qed
  have B: "weak_ptr_use_count w (hp s) = Inr (live_shared a s)"
    if "wget s k = Inr w" and "wp_control_block w = a" for k w
  proof -
    from that have "0 < live_weak a s" by (rule live_weak_pos)
    with tracked_use_count [OF t] that(2) nn show ?thesis
      by (auto simp: weak_ptr_use_count_def deref_def control_block_use_count_def)
  qed
  have C: "deleter_calls a (hp s) = (if 0 < live_shared a s then [] else [Deleter_call a d p])"
    using tracked_deleter_calls [OF t al] de by simp
  have D: "(deleter_calls a (hp s') \<noteq> deleter_calls a (hp s)) =
           (live_shared a s = 1 \<and> live_shared a s' = 0)"
    if S: "step x s = Inr s'" for x s'
  proof -
    note t' = reachable_step_tracked [OF r1 cb r2 S]
    have al': "a \<le> allocated (hp s')" using step_allocated [OF S] al by simp
    have C': "deleter_calls a (hp s') =
              (if 0 < live_shared a s' then [] else [Deleter_call a d p])"
      using tracked_deleter_calls [OF t' al'] de by simp
    have "0 \<le> live_shared a s'" using t' by (simp add: tracked_def)
    moreover have "0 < live_shared a s' \<Longrightarrow> 0 < live_shared a s"
      using grows_deleter_calls [OF step_grows [OF S], of a]
      unfolding C C' by (auto split: if_splits)
    ultimately show ?thesis
      using step_counts [OF S nn] unfolding C C' by auto
  qed
  from A B C D show ?thesis by blast
qed

text \<open>
  The program \<open>shared_ptr x(p7); shared_ptr y(x); x.~shared_ptr(); y.~shared_ptr();\<close>
  with \<open>p7\<close> the address 7: before the last destructor \<open>y.use_count()\<close> is 1 and the
  deleter has not been called; the last destructor calls it.
\<close>

theorem use_count_counts_live_owners_witness:
  "\<exists>s1 s s'.
     run [S_p 7] init_state = Inr s1 \<and>
     block_at (hp s1) 1 = Some (control_block_p 7) \<and>
     run [S_copy 0, S_dtor 0] s1 = Inr s \<and>
     step (S_dtor 1) s = Inr s' \<and>
     sget s 1 = Inr \<lparr>sp_ptr = 7, sp_control_block = 1\<rparr> \<and>
     shared_ptr_use_count \<lparr>sp_ptr = 7, sp_control_block = 1\<rparr> (hp s) = Inr 1 \<and>
     live_shared 1 s = 1 \<and> live_shared 1 s' = 0 \<and>
     deleter_calls 1 (hp s) = [] \<and>
     deleter_calls 1 (hp s') = [Deleter_call 1 default_delete 7]"
proof -
  obtain s1 where r1: "run [S_p 7] init_state = Inr s1"
    by (simp add: model_defs)
  have cb: "block_at (hp s1) 1 = Some (control_block_p 7)"
    using r1 by (auto simp: model_defs)
  have i: "impl (control_block_p 7) = \<lparr>impl_ptr = 7, impl_deleter = default_delete\<rparr>"
    by (simp add: model_defs)
  obtain s where r2: "run [S_copy 0, S_dtor 0] s1 = Inr s"
    using r1 by (auto simp: model_defs)
  obtain s' where S: "step (S_dtor 1) s = Inr s'"
    using r1 r2 by (auto simp: model_defs)
  have g: "sget s 1 = Inr \<lparr>sp_ptr = 7, sp_control_block = 1\<rparr>"
    using r1 r2 by (auto simp: model_defs)
  have l: "live_shared 1 s = 1"
    using r1 r2 by (auto simp: model_defs)
  have l': "live_shared 1 s' = 0"
    using r1 r2 S by (auto simp: model_defs)
  have p: "(7::nat) \<noteq> nullptr" by simp
  from use_count_counts_live_owners [OF r1 cb i p r2] have
    A: "\<forall>n v. sget s n = Inr v \<and> sp_control_block v = 1 \<longrightarrow>
          shared_ptr_use_count v (hp s) = Inr (live_shared 1 s)"
    and C: "deleter_calls 1 (hp s) =
          (if 0 < live_shared 1 s then [] else [Deleter_call 1 default_delete 7])"
    and D: "\<forall>x s'. step x s = Inr s' \<longrightarrow>
          (deleter_calls 1 (hp s') \<noteq> deleter_calls 1 (hp s)) =
          (live_shared 1 s = 1 \<and> live_shared 1 s' = 0)"
    by blast+
  from A g l have "shared_ptr_use_count \<lparr>sp_ptr = 7, sp_control_block = 1\<rparr> (hp s) = Inr 1"
    by fastforce
  moreover from C l have "deleter_calls 1 (hp s) = []" by simp
  moreover have "deleter_calls 1 (hp s') = [Deleter_call 1 default_delete 7]"
    using r1 r2 S by (auto simp: model_defs)
  ultimately show ?thesis using r1 cb r2 S g l l' by blast
qed

text \<open>
  C2. Take any program and any control block that is allocated at some point of it. At
  every later point:
  \<^item> the block has been freed exactly once if it is no longer allocated, and not at all
    otherwise;
  \<^item> while it is allocated its weak counter is at least 1, and is the number of live
    \<open>weak_ptr\<close> objects that hold it plus 1 while a live \<open>shared_ptr\<close> holds it;
  \<^item> an operation frees the block exactly when the weak counter is 1 before it and the
    block is gone after it;
  \<^item> once the block is freed no \<open>shared_ptr\<close> and no \<open>weak_ptr\<close> holds it, and its events
    are the call of the deleter (when the stored pointer is not null) followed by the
    release of the block: the object is destroyed first.
\<close>

theorem control_block_freed_once:
  assumes r1: "run xs init_state = Inr s1"
    and cb: "block_at (hp s1) a = Some cb"
    and i: "impl cb = \<lparr>impl_ptr = p, impl_deleter = d\<rparr>"
    and r2: "run ys s1 = Inr s"
  shows "block_frees a (hp s) = (if block_at (hp s) a = None then [Block_freed a] else []) \<and>
         (\<forall>cb'. block_at (hp s) a = Some cb' \<longrightarrow>
            1 \<le> weak_use_count_field cb' \<and>
            weak_use_count_field cb' =
              live_weak a s + (if 0 < live_shared a s then 1 else 0)) \<and>
         (\<forall>x s'. step x s = Inr s' \<longrightarrow>
            (block_frees a (hp s') \<noteq> block_frees a (hp s)) =
            (\<exists>cb'. block_at (hp s) a = Some cb' \<and> weak_use_count_field cb' = 1 \<and>
                   block_at (hp s') a = None)) \<and>
         (block_at (hp s) a = None \<longrightarrow>
            live_shared a s = 0 \<and> live_weak a s = 0 \<and>
            events_of a (hp s) =
              (if p \<noteq> nullptr then [Deleter_call a d p] else []) @ [Block_freed a])"
proof -
  note t = reachable_tracked [OF r1 cb r2]
  note al = reachable_allocated [OF r1 cb r2]
  have nn: "a \<noteq> nullptr" using t by (rule tracked_nonnull)
  have de: "destroy_events a (impl cb) = (if p \<noteq> nullptr then [Deleter_call a d p] else [])"
    using i by (simp add: destroy_events_def)
  note A = tracked_block_frees [OF t al]
  have B: "1 \<le> weak_use_count_field cb' \<and>
           weak_use_count_field cb' = live_weak a s + (if 0 < live_shared a s then 1 else 0)"
    if "block_at (hp s) a = Some cb'" for cb'
    using t that by (auto simp: tracked_def block_at_def split: if_splits)
  have C: "(block_frees a (hp s') \<noteq> block_frees a (hp s)) =
           (\<exists>cb'. block_at (hp s) a = Some cb' \<and> weak_use_count_field cb' = 1 \<and>
                  block_at (hp s') a = None)"
    if S: "step x s = Inr s'" for x s'
  proof -
    note t' = reachable_step_tracked [OF r1 cb r2 S]
    have al': "a \<le> allocated (hp s')" using step_allocated [OF S] al by simp
    note A' = tracked_block_frees [OF t' al']
    have stay: "block_at (hp s) a = None \<Longrightarrow> block_at (hp s') a = None"
      using grows_block_frees [OF step_grows [OF S], of a]
      unfolding A A' by (auto split: if_splits)
    have one: "weak_use_count_field cb' = 1"
      if live: "block_at (hp s) a = Some cb'" and dead: "block_at (hp s') a = None" for cb'
    proof -
      from tracked_dead [OF t' al' dead]
      have z: "live_shared a s' = 0" "live_weak a s' = 0" by simp_all
      have nonneg: "0 \<le> live_shared a s" "0 \<le> live_weak a s"
        using t by (simp_all add: tracked_def)
      from B [OF live] step_counts [OF S nn] z nonneg show ?thesis
        by (auto split: if_splits)
    qed
    show ?thesis
    proof (cases "block_at (hp s) a")
      case None
      with stay show ?thesis unfolding A A' by simp
    next
      case (Some cb')
      with one [OF Some] show ?thesis unfolding A A' by auto
    qed
  qed
  have D: "live_shared a s = 0 \<and> live_weak a s = 0 \<and>
           events_of a (hp s) =
             (if p \<noteq> nullptr then [Deleter_call a d p] else []) @ [Block_freed a]"
    if "block_at (hp s) a = None"
    using tracked_dead [OF t al that] de by simp
  from A B C D show ?thesis by blast
qed

text \<open>
  The program \<open>shared_ptr x(p7); weak_ptr w(x); x.~shared_ptr(); w.~weak_ptr();\<close>: after
  the destructor of \<open>x\<close> the block is still allocated with weak counter 1; the destructor
  of \<open>w\<close> frees it, after the deleter has been called.
\<close>

theorem control_block_freed_once_witness:
  "\<exists>s1 s s'.
     run [S_p 7] init_state = Inr s1 \<and>
     block_at (hp s1) 1 = Some (control_block_p 7) \<and>
     run [W_from_shared 0, S_dtor 0] s1 = Inr s \<and>
     run [W_from_shared 0, S_dtor 0, W_dtor 0] s1 = Inr s' \<and>
     step (W_dtor 0) s = Inr s' \<and>
     block_frees 1 (hp s) = [] \<and>
     (\<exists>cb'. block_at (hp s) 1 = Some cb' \<and> weak_use_count_field cb' = 1) \<and>
     block_at (hp s') 1 = None \<and>
     block_frees 1 (hp s') = [Block_freed 1] \<and>
     events_of 1 (hp s') = [Deleter_call 1 default_delete 7, Block_freed 1]"
proof -
  obtain s1 where r1: "run [S_p 7] init_state = Inr s1"
    by (simp add: model_defs)
  have cb: "block_at (hp s1) 1 = Some (control_block_p 7)"
    using r1 by (auto simp: model_defs)
  have i: "impl (control_block_p 7) = \<lparr>impl_ptr = 7, impl_deleter = default_delete\<rparr>"
    by (simp add: model_defs)
  obtain s where r2: "run [W_from_shared 0, S_dtor 0] s1 = Inr s"
    using r1 by (auto simp: model_defs)
  obtain s' where S: "step (W_dtor 0) s = Inr s'"
    using r1 r2 by (auto simp: model_defs)
  have r3: "run [W_from_shared 0, S_dtor 0, W_dtor 0] s1 = Inr s'"
    using run_append [OF r2, of "[W_dtor 0]"] S by simp
  have live: "\<exists>cb'. block_at (hp s) 1 = Some cb' \<and> weak_use_count_field cb' = 1"
    using r1 r2 by (auto simp: model_defs)
  have dead: "block_at (hp s') 1 = None"
    using r1 r2 S by (auto simp: model_defs)
  from control_block_freed_once [OF r1 cb i r2] live
  have "block_frees 1 (hp s) = []" by auto
  moreover from control_block_freed_once [OF r1 cb i r3] dead
  have "block_frees 1 (hp s') = [Block_freed 1]"
    and "events_of 1 (hp s') = [Deleter_call 1 default_delete 7, Block_freed 1]"
    by auto
  ultimately show ?thesis using r1 cb r2 r3 S live dead by blast
qed

subsection \<open>The empty weak\_ptr\<close>

text \<open>
  C3 (the code as it is): a default-constructed \<open>weak_ptr\<close> holds no control block; its
  \<open>use_count()\<close> is 0, but its \<open>expired()\<close> is \<open>false\<close>, not \<open>true\<close>, in every heap.
\<close>

theorem empty_weak_ptr_not_expired:
  "weak_ptr_use_count weak_ptr_default h = Inr 0 \<and>
   weak_ptr_expired weak_ptr_default h = Inr False"
  by (simp add: weak_ptr_use_count_def weak_ptr_expired_def weak_ptr_default_def)

subsection \<open>enable\_shared\_from\_this\<close>

text \<open>
  C4 (the code as it is): \<open>shared_from_this()\<close> of an object that no \<open>shared_ptr\<close> has
  captured is undefined behaviour, not \<open>bad_weak_ptr\<close>; and wrapping the object at \<open>p\<close> in
  a \<open>shared_ptr\<close> leaves its \<open>weak_this\<close> empty, so that \<open>p->shared_from_this()\<close> is
  undefined behaviour after the wrap as well.
\<close>

theorem shared_from_this_never_bound:
  "shared_from_this enable_shared_from_this_default h = Inl (undefined_behaviour, h) \<and>
   (let h0 = h\<lparr>objects := (objects h)(p \<mapsto> enable_shared_from_this_default)\<rparr>;
        (sp, h1) = shared_ptr_p p h0
    in objects h1 p = Some enable_shared_from_this_default \<and>
       shared_from_this_at p h1 = Inl (undefined_behaviour, h1))"
  by (simp add: shared_from_this_def shared_from_this_at_def shared_ptr_from_weak_def
      weak_ptr_expired_def enable_shared_from_this_default_def weak_ptr_default_def
      inc_ref_def block_at_def shared_ptr_p_def new_control_block_def Let_def)

subsection \<open>Promotion of a weak\_ptr\<close>

text \<open>
  C5 (the code as it is): \<open>lock()\<close> of a default-constructed \<open>weak_ptr\<close>, which
  \<open>expired()\<close> reports as not expired, is undefined behaviour: the constructor it calls
  increments the strong counter through the null pointer. (For a \<open>weak_ptr\<close> that holds
  a control block \<open>lock()\<close> does what is expected of it: \<open>lock_bound_weak_ptr\<close>.)
\<close>

theorem lock_empty_weak_ptr_undefined:
  "weak_ptr_expired weak_ptr_default h = Inr False \<and>
   weak_ptr_lock weak_ptr_default h = Inl (undefined_behaviour, h)"
  by (simp add: weak_ptr_lock_def shared_ptr_from_weak_def
      weak_ptr_expired_def weak_ptr_default_def inc_ref_def block_at_def)

text \<open>
  C6 (the code as it is): \<open>shared_ptr(wp)\<close> for a default-constructed \<open>weak_ptr\<close>, which
  \<open>expired()\<close> reports as not expired, neither throws \<open>bad_weak_ptr\<close> nor succeeds: it
  increments the strong counter through the null pointer, which is undefined behaviour.
\<close>

theorem shared_ptr_from_empty_weak_ptr_undefined:
  "weak_ptr_expired weak_ptr_default h = Inr False \<and>
   shared_ptr_from_weak weak_ptr_default h = Inl (undefined_behaviour, h)"
  by (simp add: shared_ptr_from_weak_def weak_ptr_expired_def weak_ptr_default_def
      inc_ref_def block_at_def)

text \<open>
  For a \<open>weak_ptr\<close> that holds an allocated control block the constructor does what is
  expected of it: when the block reports no strong owner it throws \<open>bad_weak_ptr\<close> and
  the heap is as before; when it reports one or more, it succeeds with the fields of
  \<open>wp\<close> and the strong counter of that block one greater, everything else as before.
\<close>

lemma shared_ptr_from_weak_bound:
  assumes "block_at h (wp_control_block wp) = Some cb"
  shows "(control_block_use_count cb = 0 \<longrightarrow>
            shared_ptr_from_weak wp h = Inl (bad_weak_ptr, h)) \<and>
         (control_block_use_count cb \<noteq> 0 \<longrightarrow>
            shared_ptr_from_weak wp h =
              Inr (\<lparr>sp_ptr = wp_ptr wp, sp_control_block = wp_control_block wp\<rparr>,
                   h\<lparr>blocks := (blocks h)(wp_control_block wp \<mapsto>
                        cb\<lparr>use_count_field := use_count_field cb + 1\<rparr>)\<rparr>))"
  using shared_ptr_from_weak_result [OF assms]
  by (simp add: control_block_use_count_def)

subsection \<open>Promotion while another thread destroys the last owner\<close>

text \<open>
  C8 (the code as it is): the check and the increment of the promotion are two steps.
  Take the program \<open>shared_ptr x(p7); weak_ptr w(x);\<close> and let another thread destroy
  \<open>x\<close>, the only owner, between the check and the increment of \<open>w.lock()\<close>. Then \<open>lock()\<close>
  returns a \<open>shared_ptr\<close> with \<open>use_count()\<close> 1 for an object on which the deleter has
  already been called, and the destructor of that \<open>shared_ptr\<close> calls the deleter on the
  same object again. Had the other thread destroyed \<open>x\<close> before the check, \<open>lock()\<close> would
  have returned an empty \<open>shared_ptr\<close>.
\<close>

theorem lock_races_with_last_owner:
  "\<exists>s r h' h''.
     run [S_p 7, W_from_shared 0] init_state = Inr s \<and>
     sget s 0 = Inr \<lparr>sp_ptr = 7, sp_control_block = 1\<rparr> \<and>
     wget s 0 = Inr \<lparr>wp_ptr = 7, wp_control_block = 1\<rparr> \<and>
     weak_ptr_expired \<lparr>wp_ptr = 7, wp_control_block = 1\<rparr> (hp s) = Inr False \<and>
     weak_ptr_lock_interleaved \<lparr>wp_ptr = 7, wp_control_block = 1\<rparr>
       (shared_ptr_dtor \<lparr>sp_ptr = 7, sp_control_block = 1\<rparr>) (hp s) = Inr (r, h') \<and>
     r = \<lparr>sp_ptr = 7, sp_control_block = 1\<rparr> \<and>
     shared_ptr_use_count r h' = Inr 1 \<and>
     deleter_calls 1 h' = [Deleter_call 1 default_delete 7] \<and>
     shared_ptr_dtor r h' = Inr h'' \<and>
     deleter_calls 1 h'' = [Deleter_call 1 default_delete 7, Deleter_call 1 default_delete 7] \<and>
     bind_result (shared_ptr_dtor \<lparr>sp_ptr = 7, sp_control_block = 1\<rparr> (hp s))
       (weak_ptr_lock \<lparr>wp_ptr = 7, wp_control_block = 1\<rparr>)
       = bind_result (shared_ptr_dtor \<lparr>sp_ptr = 7, sp_control_block = 1\<rparr> (hp s))
           (\<lambda>h1. Inr (shared_ptr_default, h1))"
  by (simp add: model_defs weak_ptr_lock_interleaved_def shared_ptr_from_weak_interleaved_def)

subsection \<open>Pointer casts\<close>

text \<open>
  C7 (as stated, refuted). For the only owner \<open>sp\<close> of the object at address 7,
  \<open>sp.use_count()\<close> is 1 before the round trip with \<open>static_pointer_cast\<close>, and
  \<open>use_count()\<close> of the result is 2 once the temporary is destroyed, not 1. And for the
  only owner \<open>sp\<close> made by \<open>shared_ptr(nullptr, d)\<close>, the round trip with
  \<open>dynamic_pointer_cast\<close> gives an empty \<open>shared_ptr\<close>, which holds no control block and
  is \<open>owner_before\<close> \<open>sp\<close>.
\<close>

theorem cast_round_trip_same_count_counterexample:
  "fst (shared_ptr_p 7 empty_heap) = \<lparr>sp_ptr = 7, sp_control_block = 1\<rparr> \<and>
   shared_ptr_use_count \<lparr>sp_ptr = 7, sp_control_block = 1\<rparr> (snd (shared_ptr_p 7 empty_heap))
     = Inr 1 \<and>
   use_count_after_round_trip Static id Static id \<lparr>sp_ptr = 7, sp_control_block = 1\<rparr>
     (snd (shared_ptr_p 7 empty_heap)) = Inr 2 \<and>
   fst (shared_ptr_nullptr_d (custom_deleter 3) empty_heap)
     = \<lparr>sp_ptr = nullptr, sp_control_block = 1\<rparr> \<and>
   cast_round_trip Dynamic id Dynamic id \<lparr>sp_ptr = nullptr, sp_control_block = 1\<rparr>
     (snd (shared_ptr_nullptr_d (custom_deleter 3) empty_heap))
     = Inr (shared_ptr_default, snd (shared_ptr_nullptr_d (custom_deleter 3) empty_heap)) \<and>
   shared_ptr_owner_before shared_ptr_default \<lparr>sp_ptr = nullptr, sp_control_block = 1\<rparr>"
  by (simp add: use_count_after_round_trip_def cast_round_trip_def static_pointer_cast_def
      dynamic_pointer_cast_def shared_ptr_default_def shared_ptr_owner_before_def
      shared_ptr_alias_def shared_ptr_dtor_def inc_ref_def dec_ref_def block_at_def Let_def
      shared_ptr_use_count_def deref_def control_block_use_count_def shared_ptr_p_def
      shared_ptr_nullptr_d_def control_block_p_d_def
      new_control_block_def control_block_p_def empty_heap_def shared_ptr_get_def)

text \<open>
  C7 (amended). Let \<open>sp\<close> own an allocated control block, and take the round trip with any
  two of the four casts and any two pointer conversions.
  \<^item> When both casts convert, the round trip succeeds and its result holds the control
    block of \<open>sp\<close>, so neither is \<open>owner_before\<close> the other. Once the temporary is
    destroyed \<open>use_count()\<close> of the result and of \<open>sp\<close> is one greater than before, the one
    unit being the result itself; and destroying the result gives back the heap of
    before the round trip, counters included.
  \<^item> When one of them is a \<open>dynamic_pointer_cast\<close> whose conversion gives the null pointer,
    the result holds no control block, its \<open>use_count()\<close> is 0, and the heap is that of
    before the round trip.
\<close>

theorem cast_round_trip_counts:
  assumes "block_at h (sp_control_block sp) = Some cb" and "0 < use_count_field cb"
  shows "(converts cast1 to_U (shared_ptr_get sp) \<and>
          converts cast2 to_T (to_U (shared_ptr_get sp)) \<longrightarrow>
            (\<exists>r h'. cast_round_trip cast1 to_U cast2 to_T sp h = Inr (r, h') \<and>
               sp_control_block r = sp_control_block sp \<and>
               \<not> shared_ptr_owner_before r sp \<and> \<not> shared_ptr_owner_before sp r \<and>
               shared_ptr_use_count sp h = Inr (use_count_field cb) \<and>
               shared_ptr_use_count r h' = Inr (use_count_field cb + 1) \<and>
               shared_ptr_use_count sp h' = Inr (use_count_field cb + 1) \<and>
               shared_ptr_dtor r h' = Inr h)) \<and>
         (\<not> (converts cast1 to_U (shared_ptr_get sp) \<and>
             converts cast2 to_T (to_U (shared_ptr_get sp))) \<longrightarrow>
            (\<exists>r. cast_round_trip cast1 to_U cast2 to_T sp h = Inr (r, h) \<and>
               sp_control_block r = nullptr \<and>
               shared_ptr_use_count r h = Inr 0 \<and>
               shared_ptr_use_count sp h = Inr (use_count_field cb)))"
proof -
  from assms have nn: "sp_control_block sp \<noteq> nullptr"
    by (auto simp: block_at_def split: if_splits)
  with assms have b: "blocks h (sp_control_block sp) = Some cb"
    by (simp add: block_at_def)
  have same: "h\<lparr>blocks := (blocks h)(sp_control_block sp \<mapsto> cb)\<rparr> = h"
    using b by (simp add: fun_upd_idem)
  show ?thesis
    using assms nn b same
    by (cases cast1; cases cast2)
      (simp_all add: cast_round_trip_def static_pointer_cast_def const_pointer_cast_def
        dynamic_pointer_cast_def reinterpret_pointer_cast_def converts_def
        shared_ptr_alias_def shared_ptr_default_def shared_ptr_get_def
        shared_ptr_dtor_def inc_ref_def dec_ref_def block_at_def Let_def
        shared_ptr_owner_before_def shared_ptr_use_count_def deref_def
        control_block_use_count_def)
qed

text \<open>
  The round trip of the only owner of the object at address 7 with \<open>static_pointer_cast\<close>
  and back with \<open>dynamic_pointer_cast\<close>, once with a conversion that succeeds and once
  with one that fails.
\<close>

theorem cast_round_trip_counts_witness:
  "(\<exists>r h'. cast_round_trip Static id Dynamic id \<lparr>sp_ptr = 7, sp_control_block = 1\<rparr>
             (snd (shared_ptr_p 7 empty_heap)) = Inr (r, h') \<and>
     sp_control_block r = 1 \<and>
     shared_ptr_use_count r h' = Inr 2 \<and>
     shared_ptr_use_count \<lparr>sp_ptr = 7, sp_control_block = 1\<rparr> h' = Inr 2 \<and>
     shared_ptr_dtor r h' = Inr (snd (shared_ptr_p 7 empty_heap))) \<and>
   (\<exists>r. cast_round_trip Static id Dynamic (\<lambda>p. nullptr) \<lparr>sp_ptr = 7, sp_control_block = 1\<rparr>
             (snd (shared_ptr_p 7 empty_heap)) = Inr (r, snd (shared_ptr_p 7 empty_heap)) \<and>
     sp_control_block r = nullptr \<and>
     shared_ptr_use_count r (snd (shared_ptr_p 7 empty_heap)) = Inr 0)"
proof -
  have b: "block_at (snd (shared_ptr_p 7 empty_heap))
             (sp_control_block \<lparr>sp_ptr = 7, sp_control_block = 1\<rparr>) = Some (control_block_p 7)"
    by (simp add: block_at_def shared_ptr_p_def new_control_block_def empty_heap_def Let_def)
  have u: "0 < use_count_field (control_block_p 7)"
    by (simp add: control_block_p_def)
  from cast_round_trip_counts [OF b u, of Static id Dynamic id]
  have A: "\<exists>r h'. cast_round_trip Static id Dynamic id \<lparr>sp_ptr = 7, sp_control_block = 1\<rparr>
             (snd (shared_ptr_p 7 empty_heap)) = Inr (r, h') \<and>
     sp_control_block r = 1 \<and>
     shared_ptr_use_count r h' = Inr 2 \<and>
     shared_ptr_use_count \<lparr>sp_ptr = 7, sp_control_block = 1\<rparr> h' = Inr 2 \<and>
     shared_ptr_dtor r h' = Inr (snd (shared_ptr_p 7 empty_heap))"
    by (simp add: converts_def shared_ptr_get_def control_block_p_def) blast
  from cast_round_trip_counts [OF b u, of Static id Dynamic "\<lambda>p. nullptr"]
  have B: "\<exists>r. cast_round_trip Static id Dynamic (\<lambda>p. nullptr)
             \<lparr>sp_ptr = 7, sp_control_block = 1\<rparr>
             (snd (shared_ptr_p 7 empty_heap)) = Inr (r, snd (shared_ptr_p 7 empty_heap)) \<and>
     sp_control_block r = nullptr \<and>
     shared_ptr_use_count r (snd (shared_ptr_p 7 empty_heap)) = Inr 0"
    by (simp add: converts_def shared_ptr_get_def) blast
  from A B show ?thesis by blast
qed

subsection \<open>Ownership taken from a unique\_ptr\<close>

text \<open>
  C9. For every \<open>unique_ptr\<close> \<open>up\<close> and every heap, the \<open>shared_ptr\<close> constructed from
  \<open>std::move(up)\<close> has \<open>use_count()\<close> 1 and stores the pointer \<open>up\<close> held, and \<open>up\<close> holds
  the null pointer afterwards.
\<close>

theorem shared_ptr_from_unique_takes_over:
  "(let (sp, up', h') = shared_ptr_from_unique up h
    in shared_ptr_use_count sp h' = Inr 1 \<and>
       shared_ptr_get sp = unique_ptr_get up \<and>
       unique_ptr_get up' = nullptr)"
  by (simp add: shared_ptr_from_unique_def unique_ptr_release_def unique_ptr_get_deleter_def
      shared_ptr_p_d_def new_control_block_def shared_ptr_use_count_def deref_def block_at_def
      control_block_use_count_def control_block_p_d_def shared_ptr_get_def unique_ptr_get_def
      Let_def)

subsection \<open>A null pointer with a deleter\<close>

text \<open>
  C10. At any point of any program, \<open>shared_ptr(nullptr, d)\<close> gives an object with
  \<open>use_count()\<close> 1, \<open>get()\<close> null and \<open>operator bool\<close> false. However the program goes on,
  the deleter of its control block is never called; and when no live \<open>shared_ptr\<close> and no
  live \<open>weak_ptr\<close> holds the block any more, the block has been freed.
\<close>

theorem nullptr_with_deleter_never_deletes:
  assumes r1: "run xs init_state = Inr s1"
    and S: "step (S_nullptr_d d) s1 = Inr s2"
    and v: "sget s2 (length (svars s1)) = Inr v"
    and r2: "run ys s2 = Inr s"
  shows "shared_ptr_use_count v (hp s2) = Inr 1 \<and>
         shared_ptr_get v = nullptr \<and> \<not> shared_ptr_bool v \<and>
         deleter_calls (sp_control_block v) (hp s) = [] \<and>
         (live_shared (sp_control_block v) s = 0 \<and> live_weak (sp_control_block v) s = 0 \<longrightarrow>
            block_at (hp s) (sp_control_block v) = None \<and>
            block_frees (sp_control_block v) (hp s) = [Block_freed (sp_control_block v)])"
proof -
  define a where "a = Suc (allocated (hp s1))"
  define cb where "cb = control_block_p_d nullptr d"
  from S v have veq: "v = \<lparr>sp_ptr = nullptr, sp_control_block = a\<rparr>"
    and h2: "hp s2 = (hp s1)\<lparr>blocks := (blocks (hp s1))(a \<mapsto> cb), allocated := a\<rparr>"
    by (auto simp: shared_ptr_nullptr_d_def new_control_block_def Let_def new_shared_def
        sget_def a_def cb_def)
  have live: "block_at (hp s2) a = Some cb"
    by (simp add: h2 block_at_def a_def)
  have r12: "run (xs @ [S_nullptr_d d]) init_state = Inr s2"
    using run_append [OF r1, of "[S_nullptr_d d]"] S by simp
  note t = reachable_tracked [OF r12 live r2]
  note al = reachable_allocated [OF r12 live r2]
  have de: "destroy_events a (impl cb) = []"
    by (simp add: destroy_events_def cb_def control_block_p_d_def Ptr_p_d_def)
  have A: "shared_ptr_use_count v (hp s2) = Inr 1"
    using live by (simp add: veq shared_ptr_use_count_def deref_def control_block_use_count_def
        cb_def control_block_p_d_def a_def)
  have B: "shared_ptr_get v = nullptr \<and> \<not> shared_ptr_bool v"
    by (simp add: veq shared_ptr_get_def shared_ptr_bool_def)
  have C: "deleter_calls a (hp s) = []"
    using tracked_deleter_calls [OF t al] de by simp
  have D: "block_at (hp s) a = None \<and> block_frees a (hp s) = [Block_freed a]"
    if "live_shared a s = 0 \<and> live_weak a s = 0"
  proof -
    have "block_at (hp s) a = None"
    proof (cases "block_at (hp s) a")
      case None
      then show ?thesis .
    next
      case (Some cb')
      with t that have False
        by (auto simp: tracked_def block_at_def split: if_splits)
      then show ?thesis ..
    qed
    with tracked_block_frees [OF t al] show ?thesis by simp
  qed
  have "sp_control_block v = a" by (simp add: veq)
  with A B C D show ?thesis by simp
qed

text \<open>
  The program \<open>shared_ptr x(nullptr, d3); shared_ptr y(x); x.~shared_ptr();
  y.~shared_ptr();\<close>: no call of the deleter, and the block is freed.
\<close>

theorem nullptr_with_deleter_never_deletes_witness:
  "\<exists>s2 s.
     step (S_nullptr_d (custom_deleter 3)) init_state = Inr s2 \<and>
     sget s2 0 = Inr \<lparr>sp_ptr = nullptr, sp_control_block = 1\<rparr> \<and>
     run [S_copy 0, S_dtor 0, S_dtor 1] s2 = Inr s \<and>
     shared_ptr_use_count \<lparr>sp_ptr = nullptr, sp_control_block = 1\<rparr> (hp s2) = Inr 1 \<and>
     live_shared 1 s = 0 \<and> live_weak 1 s = 0 \<and>
     deleter_calls 1 (hp s) = [] \<and>
     block_at (hp s) 1 = None \<and>
     block_frees 1 (hp s) = [Block_freed 1]"
proof -
  have r1: "run [] init_state = Inr init_state" by simp
  obtain s2 where S: "step (S_nullptr_d (custom_deleter 3)) init_state = Inr s2"
    by (simp add: model_defs)
  have v: "sget s2 (length (svars init_state)) = Inr \<lparr>sp_ptr = nullptr, sp_control_block = 1\<rparr>"
    using S by (auto simp: model_defs)
  then have v0: "sget s2 0 = Inr \<lparr>sp_ptr = nullptr, sp_control_block = 1\<rparr>"
    by (simp add: init_state_def)
  obtain s where r2: "run [S_copy 0, S_dtor 0, S_dtor 1] s2 = Inr s"
    using S by (auto simp: model_defs)
  have l: "live_shared 1 s = 0" "live_weak 1 s = 0"
    using S r2 by (auto simp: model_defs)
  from nullptr_with_deleter_never_deletes [OF r1 S v r2] l
  have "shared_ptr_use_count \<lparr>sp_ptr = nullptr, sp_control_block = 1\<rparr> (hp s2) = Inr 1"
    and "deleter_calls 1 (hp s) = []"
    and "block_at (hp s) 1 = None"
    and "block_frees 1 (hp s) = [Block_freed 1]"
    by simp_all
  with S v0 r2 l show ?thesis by blast
qed

end
